theory Spec2Isabelle
  imports Complex_Main "HOL-Library.Log_Nat"
begin

section \<open>Host values and errors\<close>

text \<open>
  A float of the host language and of the kernel is a double: a finite value, an
  infinity or NaN. A finite double is given by the real number it denotes; the code
  only copies doubles, and the one place where a double is computed is the conversion
  of an integer, \<open>int_to_double\<close> below.
\<close>

datatype double = Finite real | PosInf | NegInf | NaN

text \<open>
  The Python values that reach the two modules. \<open>PySeq\<close> is a tuple or a list,
  \<open>PyPnt\<close> and \<open>PyPnt2d\<close> are instances of the kernel's point classes,
  \<open>TopoDS_Shape\<close> is a kernel shape (told apart by an identifier).
\<close>

datatype gp_Pnt = gp_Pnt (X: double) (Y: double) (Z: double)

datatype gp_Pnt2d = gp_Pnt2d double double

datatype pyval =
    PyNone
  | PyFloat double
  | PyInt int
  | PySeq "pyval list"
  | PyPnt gp_Pnt
  | PyPnt2d gp_Pnt2d
  | TopoDS_Shape nat

section \<open>The kernel's operation engines (afem/topology/bop.py)\<close>

text \<open>
  The five engine classes the facade instantiates, and the calls it makes on an engine.
  \<open>Ctor0\<close> is the call \<open>bop()\<close>, \<open>Ctor2 s1 s2\<close> the call \<open>bop(s1, s2)\<close>.
\<close>

datatype bop_class =
    BRepAlgoAPI_Fuse
  | BRepAlgoAPI_Cut
  | BRepAlgoAPI_Common
  | BRepAlgoAPI_Section
  | GEOMAlgo_Splitter

datatype call =
    Ctor0
  | Ctor2 pyval pyval
  | SetRunParallel bool
  | SetFuzzyValue real
  | AddArgument pyval
  | AddTool pyval
  | SetArguments "pyval list"
  | SetTools "pyval list"
  | Build
  | Perform
  | RefineEdges

datatype error =
    KernelError call
  | TypeError
  | ValueError
  | OverflowError
  | OutOfRange

datatype warning = RuntimeWarning string

text \<open>
  The engine object held in \<open>self._bop\<close>: its class, fixed when it is created, and the
  calls made on it so far, oldest first. The kernel is not part of the repository, so
  what an engine answers is a parameter: \<open>raises\<close> says whether a call on an engine of
  a class with a given history raises, the other fields are the queries the facade
  reads.
\<close>

record engine =
  engine_class :: bop_class
  calls :: "call list"

record kernel =
  raises :: "bop_class \<Rightarrow> call list \<Rightarrow> call \<Rightarrow> bool"
  IsDone :: "engine \<Rightarrow> bool"
  ErrorStatus :: "engine \<Rightarrow> int"
  FuseEdges :: "engine \<Rightarrow> bool"
  SectionEdges :: "engine \<Rightarrow> pyval list"

definition and_then :: "error + 'a \<Rightarrow> ('a \<Rightarrow> error + 'b) \<Rightarrow> error + 'b" where
  "and_then r f = (case r of Inl err \<Rightarrow> Inl err | Inr x \<Rightarrow> f x)"

definition construct :: "kernel \<Rightarrow> bop_class \<Rightarrow> call \<Rightarrow> error + engine" where
  "construct K bop c =
     (if raises K bop [] c then Inl (KernelError c)
      else Inr \<lparr>engine_class = bop, calls = [c]\<rparr>)"

definition invoke :: "kernel \<Rightarrow> engine \<Rightarrow> call \<Rightarrow> error + engine" where
  "invoke K e c =
     (if raises K (engine_class e) (calls e) c then Inl (KernelError c)
      else Inr (e\<lparr>calls := calls e @ [c]\<rparr>))"

text \<open>
  Modelled from the spec: \<open>CheckShape.is_shape\<close> (afem/topology/check.py is not among
  the sources); an operand is valid when it is a geometric shape.
\<close>

fun is_shape :: "pyval \<Rightarrow> bool" where
  "is_shape (TopoDS_Shape _) = True"
| "is_shape _ = False"

text \<open>
  Modelled from the spec: \<open>to_toptools_listofshape\<close> and
  \<open>to_lst_from_toptools_listofshape\<close> (afem/occ/utils.py is not among the sources); a
  kernel list of shapes is represented by the sequence of the shapes it holds.
\<close>

definition to_toptools_listofshape :: "pyval list \<Rightarrow> pyval list" where
  "to_toptools_listofshape shapes = shapes"

definition to_lst_from_toptools_listofshape :: "pyval list \<Rightarrow> pyval list" where
  "to_lst_from_toptools_listofshape shapes = shapes"

section \<open>The facade \<open>BopAlgo\<close> and its subclasses\<close>

text \<open>
  \<open>BopAlgo.__init__\<close>, lines 33-41. \<open>fuzzy_val\<close> is \<open>None\<close> or a float; it is
  handed to the engine as it is, so the model keeps it as the real number it denotes.
\<close>

definition BopAlgo_init ::
  "kernel \<Rightarrow> pyval \<Rightarrow> pyval \<Rightarrow> bool \<Rightarrow> real option \<Rightarrow> bop_class \<Rightarrow> error + engine" where
  "BopAlgo_init K shape1 shape2 parallel fuzzy_val bop =
     and_then
       (if is_shape shape1 \<and> is_shape shape2 then construct K bop (Ctor2 shape1 shape2)
        else construct K bop Ctor0)
       (\<lambda>e. and_then
          (if parallel then invoke K e (SetRunParallel True) else Inr e)
          (\<lambda>e. case fuzzy_val of
                  None \<Rightarrow> Inr e
                | Some v \<Rightarrow> invoke K e (SetFuzzyValue v)))"

definition is_splitter :: "engine \<Rightarrow> bool" where
  "is_splitter e = (engine_class e = GEOMAlgo_Splitter)"

text \<open>
  \<open>set_args\<close> and \<open>set_tools\<close>, lines 47-75. On a splitter the loop body returns in its
  first iteration; with no element the loop ends at once and control reaches the two
  lines after the \<open>if\<close>.
\<close>

definition set_args :: "kernel \<Rightarrow> engine \<Rightarrow> pyval list \<Rightarrow> error + engine" where
  "set_args K e shapes =
     (if is_splitter e then
        (case shapes of
           shape # _ \<Rightarrow> invoke K e (AddArgument shape)
         | [] \<Rightarrow> invoke K e (SetArguments (to_toptools_listofshape shapes)))
      else invoke K e (SetArguments (to_toptools_listofshape shapes)))"

definition set_tools :: "kernel \<Rightarrow> engine \<Rightarrow> pyval list \<Rightarrow> error + engine" where
  "set_tools K e shapes =
     (if is_splitter e then
        (case shapes of
           shape # _ \<Rightarrow> invoke K e (AddTool shape)
         | [] \<Rightarrow> invoke K e (SetTools (to_toptools_listofshape shapes)))
      else invoke K e (SetTools (to_toptools_listofshape shapes)))"

definition build :: "kernel \<Rightarrow> engine \<Rightarrow> error + engine" where
  "build K e = (if is_splitter e then invoke K e Perform else invoke K e Build)"

definition is_done :: "kernel \<Rightarrow> engine \<Rightarrow> bool" where
  "is_done K e = (if is_splitter e then ErrorStatus K e = 0 else IsDone K e)"

text \<open>
  \<open>refine_edges\<close>, \<open>fuse_edges\<close> and \<open>section_edges\<close>, lines 106-142. A call of \<open>warn\<close>
  is recorded in the list of warnings the method returns.
\<close>

definition refine_edges :: "kernel \<Rightarrow> engine \<Rightarrow> error + engine \<times> warning list" where
  "refine_edges K e =
     (if is_splitter e then
        Inr (e, [RuntimeWarning ''Refine edges not implemented for GEOMAlgo_Splitter.''])
      else and_then (invoke K e RefineEdges) (\<lambda>e'. Inr (e', [])))"

definition fuse_edges :: "kernel \<Rightarrow> engine \<Rightarrow> bool" where
  "fuse_edges K e = (if is_splitter e then False else FuseEdges K e)"

definition section_edges :: "kernel \<Rightarrow> engine \<Rightarrow> pyval list \<times> warning list" where
  "section_edges K e =
     (if is_splitter e then
        ([], [RuntimeWarning
           ''Section edges not implemented for GEOMAlgo_Splitter. Returning empty list.''])
      else (to_lst_from_toptools_listofshape (SectionEdges K e), []))"

text \<open>The constructors of the five subclasses, lines 238-410.\<close>

definition FuseShapes :: "kernel \<Rightarrow> pyval \<Rightarrow> pyval \<Rightarrow> bool \<Rightarrow> real option \<Rightarrow> error + engine" where
  "FuseShapes K shape1 shape2 parallel fuzzy_val =
     BopAlgo_init K shape1 shape2 parallel fuzzy_val BRepAlgoAPI_Fuse"

definition CutShapes :: "kernel \<Rightarrow> pyval \<Rightarrow> pyval \<Rightarrow> bool \<Rightarrow> real option \<Rightarrow> error + engine" where
  "CutShapes K shape1 shape2 parallel fuzzy_val =
     BopAlgo_init K shape1 shape2 parallel fuzzy_val BRepAlgoAPI_Cut"

definition CommonShapes :: "kernel \<Rightarrow> pyval \<Rightarrow> pyval \<Rightarrow> bool \<Rightarrow> real option \<Rightarrow> error + engine" where
  "CommonShapes K shape1 shape2 parallel fuzzy_val =
     BopAlgo_init K shape1 shape2 parallel fuzzy_val BRepAlgoAPI_Common"

definition IntersectShapes :: "kernel \<Rightarrow> pyval \<Rightarrow> pyval \<Rightarrow> bool \<Rightarrow> real option \<Rightarrow> error + engine" where
  "IntersectShapes K shape1 shape2 parallel fuzzy_val =
     BopAlgo_init K shape1 shape2 parallel fuzzy_val BRepAlgoAPI_Section"

definition SplitShapes :: "kernel \<Rightarrow> pyval \<Rightarrow> pyval \<Rightarrow> bool \<Rightarrow> real option \<Rightarrow> error + engine" where
  "SplitShapes K shape1 shape2 parallel fuzzy_val =
     and_then (BopAlgo_init K PyNone PyNone parallel fuzzy_val GEOMAlgo_Splitter)
       (\<lambda>e. if is_shape shape1 \<and> is_shape shape2 then
               and_then (invoke K e (AddArgument shape1))
                 (\<lambda>e. and_then (invoke K e (AddArgument shape2))
                   (\<lambda>e. invoke K e Perform))
             else Inr e)"

text \<open>
  The five subclasses as values, to speak of every variant at once: \<open>facade K v\<close> is
  the constructor of the subclass \<open>v\<close>, and \<open>engine_of v\<close> is the engine class that
  its constructor passes on as \<open>bop\<close>.
\<close>

datatype variant = Fuse | Cut | Common | Intersect | Split

fun engine_of :: "variant \<Rightarrow> bop_class" where
  "engine_of Fuse = BRepAlgoAPI_Fuse"
| "engine_of Cut = BRepAlgoAPI_Cut"
| "engine_of Common = BRepAlgoAPI_Common"
| "engine_of Intersect = BRepAlgoAPI_Section"
| "engine_of Split = GEOMAlgo_Splitter"

fun facade ::
  "kernel \<Rightarrow> variant \<Rightarrow> pyval \<Rightarrow> pyval \<Rightarrow> bool \<Rightarrow> real option \<Rightarrow> error + engine" where
  "facade K Fuse = FuseShapes K"
| "facade K Cut = CutShapes K"
| "facade K Common = CommonShapes K"
| "facade K Intersect = IntersectShapes K"
| "facade K Split = SplitShapes K"

subsection \<open>Call sequences\<close>

text \<open>
  The calls a constructor makes to forward the parallel flag and the fuzzy value, and
  the engine that results from a constructor call followed by a sequence of calls, each
  made only when the one before it returned.
\<close>

definition config_calls :: "bool \<Rightarrow> real option \<Rightarrow> call list" where
  "config_calls parallel fuzzy_val =
     (if parallel then [SetRunParallel True] else []) @
     (case fuzzy_val of None \<Rightarrow> [] | Some v \<Rightarrow> [SetFuzzyValue v])"

fun invoke_all :: "kernel \<Rightarrow> engine \<Rightarrow> call list \<Rightarrow> error + engine" where
  "invoke_all K e [] = Inr e"
| "invoke_all K e (c # cs) = and_then (invoke K e c) (\<lambda>e'. invoke_all K e' cs)"

definition run_calls :: "kernel \<Rightarrow> bop_class \<Rightarrow> call \<Rightarrow> call list \<Rightarrow> error + engine" where
  "run_calls K bop ctor cs = and_then (construct K bop ctor) (\<lambda>e. invoke_all K e cs)"

text \<open>
  Three kernels to evaluate the facade on. \<open>doctest_kernel\<close> accepts every call and
  answers as the doctests of bop.py record: an engine created from two operands reports
  done with no call of \<open>build\<close> (\<open>bop = FuseShapes(e1, e2)\<close>, \<open>assert bop.is_done\<close>), a
  built engine reports done, and a splitter has error status 0 once performed.
  \<open>failing_kernel\<close> differs in the splitter's outcome: its operation ends with error
  status 1. \<open>strict_kernel\<close> differs in the splitter's methods: a splitter has no
  \<open>SetArguments\<close> and no \<open>SetTools\<close>.
\<close>

fun is_Ctor2 :: "call \<Rightarrow> bool" where
  "is_Ctor2 (Ctor2 _ _) = True"
| "is_Ctor2 _ = False"

fun is_set_list :: "call \<Rightarrow> bool" where
  "is_set_list (SetArguments _) = True"
| "is_set_list (SetTools _) = True"
| "is_set_list _ = False"

definition doctest_kernel :: kernel where
  "doctest_kernel =
     \<lparr>raises = (\<lambda>bop h c. False),
      IsDone = (\<lambda>e. list_ex is_Ctor2 (calls e) \<or> Build \<in> set (calls e)),
      ErrorStatus = (\<lambda>e. if Perform \<in> set (calls e) then 0 else 1),
      FuseEdges = (\<lambda>e. False),
      SectionEdges = (\<lambda>e. [])\<rparr>"

definition failing_kernel :: kernel where
  "failing_kernel = doctest_kernel\<lparr>ErrorStatus := (\<lambda>e. 1)\<rparr>"

definition strict_kernel :: kernel where
  "strict_kernel =
     doctest_kernel\<lparr>raises := (\<lambda>bop h c. bop = GEOMAlgo_Splitter \<and> is_set_list c)\<rparr>"

section \<open>Array marshalling (afem/utils/tcol.py)\<close>

subsection \<open>Kernel arrays\<close>

text \<open>
  A kernel array with fixed bounds: \<open>Items ! k\<close> is the element at index
  \<open>Lower + k\<close>. \<open>new_Array1 lo up d\<close> is the constructor call with bounds \<open>lo\<close> and
  \<open>up\<close>; \<open>d\<close> stands for what the slots hold until they are set. Reading or writing
  outside the bounds is an error of the kernel.
\<close>

record 'a Array1 =
  Lower :: nat
  Upper :: nat
  Items :: "'a list"

type_synonym TColgp_Array1OfPnt = "gp_Pnt Array1"

type_synonym TColStd_Array1OfReal = "double Array1"

type_synonym TColStd_Array1OfInteger = "int Array1"

definition new_Array1 :: "nat \<Rightarrow> nat \<Rightarrow> 'a \<Rightarrow> 'a Array1" where
  "new_Array1 lo up d = \<lparr>Lower = lo, Upper = up, Items = replicate (Suc up - lo) d\<rparr>"

definition Length :: "'a Array1 \<Rightarrow> nat" where
  "Length a = Suc (Upper a) - Lower a"

definition SetValue :: "'a Array1 \<Rightarrow> nat \<Rightarrow> 'a \<Rightarrow> error + 'a Array1" where
  "SetValue a i x =
     (if Lower a \<le> i \<and> i \<le> Upper a then Inr (a\<lparr>Items := (Items a)[i - Lower a := x]\<rparr>)
      else Inl OutOfRange)"

definition Value :: "'a Array1 \<Rightarrow> nat \<Rightarrow> error + 'a" where
  "Value a i =
     (if Lower a \<le> i \<and> i \<le> Upper a then Inr (Items a ! (i - Lower a))
      else Inl OutOfRange)"

text \<open>An integer slot of the kernel holds a 32-bit signed value; the binding refuses others.\<close>

definition SetValue_Integer :: "int Array1 \<Rightarrow> nat \<Rightarrow> int \<Rightarrow> error + int Array1" where
  "SetValue_Integer a i x =
     (if - (2 ^ 31) \<le> x \<and> x < 2 ^ 31 then SetValue a i x else Inl OverflowError)"

text \<open>
  A kernel grid of points with row and column bounds. The binding refuses \<open>None\<close> where
  a point is expected.
\<close>

record 'a Array2 =
  LowerRow :: nat
  UpperRow :: nat
  LowerCol :: nat
  UpperCol :: nat
  Cells :: "'a list list"

type_synonym TColgp_Array2OfPnt = "gp_Pnt Array2"

definition new_Array2 :: "nat \<Rightarrow> nat \<Rightarrow> nat \<Rightarrow> nat \<Rightarrow> 'a \<Rightarrow> 'a Array2" where
  "new_Array2 rl ru cl cu d =
     \<lparr>LowerRow = rl, UpperRow = ru, LowerCol = cl, UpperCol = cu,
      Cells = replicate (Suc ru - rl) (replicate (Suc cu - cl) d)\<rparr>"

definition SetValue2 :: "'a Array2 \<Rightarrow> nat \<Rightarrow> nat \<Rightarrow> 'a option \<Rightarrow> error + 'a Array2" where
  "SetValue2 a i j gp =
     (case gp of
        None \<Rightarrow> Inl TypeError
      | Some x \<Rightarrow>
          if LowerRow a \<le> i \<and> i \<le> UpperRow a \<and> LowerCol a \<le> j \<and> j \<le> UpperCol a then
            Inr (a\<lparr>Cells := (Cells a)[i - LowerRow a :=
                   (Cells a ! (i - LowerRow a))[j - LowerCol a := x]]\<rparr>)
          else Inl OutOfRange)"

subsection \<open>Coercion of one element\<close>

text \<open>
  The conversion of a Python integer to a double, as \<open>float\<close> and the kernel binding
  do it: the nearest value with 53 significant bits, a tie going to the even one, and
  no double at all when that value is beyond the range of a double. \<open>bitlen\<close> is the
  number of bits of a positive integer.
\<close>

definition round_to_53 :: "int \<Rightarrow> int" where
  "round_to_53 i =
     (let a = \<bar>i\<bar>;
          e = nat (bitlen a - 53);
          q = a div 2 ^ e;
          r = a mod 2 ^ e;
          q' = (if 2 ^ e < 2 * r \<or> (2 * r = 2 ^ e \<and> odd q) then q + 1 else q)
      in sgn i * (q' * 2 ^ e))"

definition int_to_double :: "int \<Rightarrow> double option" where
  "int_to_double i =
     (let v = round_to_53 i in if \<bar>v\<bar> < 2 ^ 1024 then Some (Finite (of_int v)) else None)"

text \<open>
  The point constructor \<open>gp_Pnt(*p)\<close> of the kernel binding takes three numbers, each
  a float or an integer that converts to a double, and refuses everything else. The
  builtins \<open>float\<close> and \<open>int\<close> convert a number and raise on every other value of
  the model; \<open>int\<close> truncates a finite float towards zero.
\<close>

fun as_double :: "pyval \<Rightarrow> double option" where
  "as_double (PyFloat d) = Some d"
| "as_double (PyInt i) = int_to_double i"
| "as_double _ = None"

definition new_gp_Pnt :: "pyval list \<Rightarrow> error + gp_Pnt" where
  "new_gp_Pnt args =
     (case map as_double args of
        [Some x, Some y, Some z] \<Rightarrow> Inr (gp_Pnt x y z)
      | _ \<Rightarrow> Inl TypeError)"

fun py_float :: "pyval \<Rightarrow> error + double" where
  "py_float (PyFloat d) = Inr d"
| "py_float (PyInt i) = (case int_to_double i of Some d \<Rightarrow> Inr d | None \<Rightarrow> Inl OverflowError)"
| "py_float _ = Inl TypeError"

fun py_int :: "pyval \<Rightarrow> error + int" where
  "py_int (PyInt i) = Inr i"
| "py_int (PyFloat (Finite r)) = Inr (if 0 \<le> r then \<lfloor>r\<rfloor> else \<lceil>r\<rceil>)"
| "py_int (PyFloat NaN) = Inl ValueError"
| "py_int (PyFloat _) = Inl OverflowError"
| "py_int _ = Inl TypeError"

text \<open>
  Modelled from the spec: \<open>is_array_like\<close> (afem/utils/misc.py is not among the
  sources); a tuple, a list or an array is array-like, nothing else is.
\<close>

fun is_array_like :: "pyval \<Rightarrow> bool" where
  "is_array_like (PySeq _) = True"
| "is_array_like _ = False"

text \<open>\<open>_to_gp_pnt\<close>, lines 19-27: a point, or \<open>None\<close>.\<close>

definition to_gp_pnt :: "pyval \<Rightarrow> error + gp_Pnt option" where
  "to_gp_pnt p =
     (case p of
        PyPnt g \<Rightarrow> Inr (Some g)
      | PySeq xs \<Rightarrow>
          if is_array_like p \<and> length xs = 3 then and_then (new_gp_Pnt xs) (\<lambda>g. Inr (Some g))
          else Inr None
      | _ \<Rightarrow> Inr None)"

subsection \<open>Host sequences to kernel arrays\<close>

text \<open>
  The loop of lines 52-56 with its accumulator \<open>gp_pnts\<close> (a point object is
  true, so \<open>not gp\<close> holds of \<open>None\<close> only), the loop
  \<open>for i, x in enumerate(xs, 1): array.SetValue(i, x)\<close> shared by the converters, and
  a list comprehension whose element expression may raise.
\<close>

fun coerce_pnts :: "pyval list \<Rightarrow> gp_Pnt list \<Rightarrow> error + gp_Pnt list" where
  "coerce_pnts [] gp_pnts = Inr gp_pnts"
| "coerce_pnts (p # rest) gp_pnts =
     (case to_gp_pnt p of
        Inl err \<Rightarrow> Inl err
      | Inr None \<Rightarrow> coerce_pnts rest gp_pnts
      | Inr (Some gp) \<Rightarrow> coerce_pnts rest (gp_pnts @ [gp]))"

fun set_values ::
  "('a Array1 \<Rightarrow> nat \<Rightarrow> 'a \<Rightarrow> error + 'a Array1) \<Rightarrow> 'a Array1 \<Rightarrow> nat \<Rightarrow> 'a list \<Rightarrow>
   error + 'a Array1" where
  "set_values put array i [] = Inr array"
| "set_values put array i (x # rest) =
     and_then (put array i x) (\<lambda>array'. set_values put array' (i + 1) rest)"

fun comprehension :: "('a \<Rightarrow> error + 'b) \<Rightarrow> 'a list \<Rightarrow> error + 'b list" where
  "comprehension f [] = Inr []"
| "comprehension f (x # rest) =
     and_then (f x) (\<lambda>y. and_then (comprehension f rest) (\<lambda>ys. Inr (y # ys)))"

definition to_tcolgp_array1_pnt :: "pyval list \<Rightarrow> error + TColgp_Array1OfPnt" where
  "to_tcolgp_array1_pnt pnts =
     and_then (coerce_pnts pnts [])
       (\<lambda>gp_pnts. let n = length gp_pnts in
          set_values SetValue (new_Array1 1 n (gp_Pnt (Finite 0) (Finite 0) (Finite 0))) 1 gp_pnts)"

definition to_tcolstd_array1_real :: "pyval list \<Rightarrow> error + TColStd_Array1OfReal" where
  "to_tcolstd_array1_real array =
     and_then (comprehension py_float array)
       (\<lambda>flts. let n = length flts in
          set_values SetValue (new_Array1 1 n (Finite 0)) 1 flts)"

definition to_tcolstd_array1_integer :: "pyval list \<Rightarrow> error + TColStd_Array1OfInteger" where
  "to_tcolstd_array1_integer array =
     and_then (comprehension py_int array)
       (\<lambda>ints. let n = length ints in
          set_values SetValue_Integer (new_Array1 1 n 0) 1 ints)"

text \<open>
  \<open>to_tcolgp_array2_pnt\<close>, lines 161-189. Line 171 turns the input into a float
  array; the model takes a nested sequence of rows of coordinate vectors, for which
  this conversion gives an array of three dimensions when the nesting is rectangular
  and raises otherwise, and an array of one dimension, whose shape does not unpack
  into \<open>n, m\<close>, when there is no row. \<open>pnts[i, j]\<close> is then the array of the
  coordinates of one entry.
\<close>

definition rectangular :: "double list list list \<Rightarrow> bool" where
  "rectangular pnts =
     (list_all (\<lambda>row. length row = length (hd pnts)) pnts \<and>
      list_all (\<lambda>v. length v = length (hd (concat pnts))) (concat pnts))"

definition array2_gp_pnts :: "double list list list \<Rightarrow> error + gp_Pnt option list list" where
  "array2_gp_pnts pnts =
     comprehension (comprehension (\<lambda>v. to_gp_pnt (PySeq (map PyFloat v)))) pnts"

fun set_row ::
  "'a Array2 \<Rightarrow> nat \<Rightarrow> nat \<Rightarrow> 'a option list \<Rightarrow> error + 'a Array2" where
  "set_row array i j [] = Inr array"
| "set_row array i j (gp # rest) =
     and_then (SetValue2 array i j gp) (\<lambda>array'. set_row array' i (j + 1) rest)"

fun set_rows ::
  "'a Array2 \<Rightarrow> nat \<Rightarrow> 'a option list list \<Rightarrow> error + 'a Array2" where
  "set_rows array i [] = Inr array"
| "set_rows array i (row # rest) =
     and_then (set_row array i 1 row) (\<lambda>array'. set_rows array' (i + 1) rest)"

definition to_tcolgp_array2_pnt :: "double list list list \<Rightarrow> error + TColgp_Array2OfPnt" where
  "to_tcolgp_array2_pnt pnts =
     (case pnts of
        [] \<Rightarrow> Inl ValueError
      | row0 # _ \<Rightarrow>
          if \<not> rectangular pnts then Inl ValueError
          else
            let n = length pnts; m = length row0 in
            and_then (array2_gp_pnts pnts)
              (\<lambda>gp_pnts. set_rows (new_Array2 1 n 1 m (gp_Pnt (Finite 0) (Finite 0) (Finite 0))) 1 gp_pnts))"

subsection \<open>Kernel arrays to host arrays\<close>

text \<open>
  \<open>to_np_from_tcolgp_array1_pnt\<close>, lines 245-257. The host array of shape \<open>(n, 3)\<close>
  is the list of its rows; the loop runs over \<open>range(n)\<close>.
\<close>

fun copy_pnts ::
  "gp_Pnt Array1 \<Rightarrow> nat list \<Rightarrow> double list list \<Rightarrow> error + double list list" where
  "copy_pnts tcol_array [] array = Inr array"
| "copy_pnts tcol_array (i # rest) array =
     and_then (Value tcol_array (i + 1))
       (\<lambda>p. copy_pnts tcol_array rest (array[i := [X p, Y p, Z p]]))"

definition to_np_from_tcolgp_array1_pnt :: "gp_Pnt Array1 \<Rightarrow> error + double list list" where
  "to_np_from_tcolgp_array1_pnt tcol_array =
     (let n = Length tcol_array; array = replicate n [Finite 0, Finite 0, Finite 0]
      in copy_pnts tcol_array [0..<n] array)"

subsection \<open>Vocabulary of the marshalling claims\<close>

text \<open>
  An element is skipped when its coercion gives \<open>None\<close> and coercible when it gives a
  point; \<open>coerced\<close> collects the points of the coercible elements in order.
  \<open>host_coords\<close> are the coordinates of an element as the host sequence holds them,
  \<open>coords\<close> the doubles they become. \<open>pnt_of\<close> is the point of a vector of three
  doubles.
\<close>

definition skipped :: "pyval \<Rightarrow> bool" where
  "skipped p = (to_gp_pnt p = Inr None)"

definition coercible :: "pyval \<Rightarrow> bool" where
  "coercible p = (case to_gp_pnt p of Inr (Some _) \<Rightarrow> True | _ \<Rightarrow> False)"

definition coerced :: "pyval list \<Rightarrow> gp_Pnt list" where
  "coerced pnts =
     concat (map (\<lambda>p. case to_gp_pnt p of Inr (Some g) \<Rightarrow> [g] | _ \<Rightarrow> []) pnts)"

fun host_coords :: "pyval \<Rightarrow> pyval list" where
  "host_coords (PyPnt g) = [PyFloat (X g), PyFloat (Y g), PyFloat (Z g)]"
| "host_coords (PySeq xs) = xs"
| "host_coords _ = []"

fun coords :: "pyval \<Rightarrow> double list" where
  "coords (PyPnt g) = [X g, Y g, Z g]"
| "coords (PySeq xs) = List.map_filter as_double xs"
| "coords _ = []"

definition pnt_of :: "double list \<Rightarrow> gp_Pnt" where
  "pnt_of v = gp_Pnt (v ! 0) (v ! 1) (v ! 2)"

text \<open>
  Equality within floating-point tolerance of a host number and a double, as a
  comparison of floats decides it: two finite values that differ by at most the
  rounding error of a double, which is the fraction \<open>1 / 2 ^ 53\<close> of the value, or the
  same infinity. NaN is equal to nothing, itself included. \<open>comes_back v r\<close> says that
  the coordinate \<open>v\<close> is returned as \<open>r\<close>: within tolerance, or NaN for NaN.
\<close>

fun close_to :: "double \<Rightarrow> double \<Rightarrow> bool" where
  "close_to (Finite x) r = (case r of Finite y \<Rightarrow> \<bar>y - x\<bar> \<le> \<bar>x\<bar> / 2 ^ 53 | _ \<Rightarrow> False)"
| "close_to PosInf r = (r = PosInf)"
| "close_to NegInf r = (r = NegInf)"
| "close_to NaN r = False"

definition within_tolerance :: "pyval \<Rightarrow> double \<Rightarrow> bool" where
  "within_tolerance v r =
     (case v of
        PyFloat d \<Rightarrow> close_to d r
      | PyInt i \<Rightarrow>
          (case r of Finite y \<Rightarrow> \<bar>y - of_int i\<bar> \<le> \<bar>of_int i\<bar> / 2 ^ 53 | _ \<Rightarrow> False)
      | _ \<Rightarrow> False)"

definition comes_back :: "pyval \<Rightarrow> double \<Rightarrow> bool" where
  "comes_back v r = (if v = PyFloat NaN then r = NaN else within_tolerance v r)"

section \<open>Properties of the facade\<close>

lemma invoke_all_append:
  "invoke_all K e (cs @ ds) = and_then (invoke_all K e cs) (\<lambda>e'. invoke_all K e' ds)"
proof (induction cs arbitrary: e)
  case Nil
  show ?case by (simp add: and_then_def)
next
  case (Cons c cs)
  show ?case
    by (cases "invoke K e c") (simp_all add: and_then_def Cons.IH)
qed

lemma invoke_all_result:
  "invoke_all K e cs = Inr e' \<Longrightarrow> engine_class e' = engine_class e \<and> calls e' = calls e @ cs"
proof (induction cs arbitrary: e)
  case Nil
  then show ?case by simp
next
  case (Cons c cs)
  from Cons.prems obtain e1 where
    step: "invoke K e c = Inr e1" and rest: "invoke_all K e1 cs = Inr e'"
    by (auto simp: and_then_def split: sum.splits)
  from step have e1: "e1 = e\<lparr>calls := calls e @ [c]\<rparr>"
    by (auto simp: invoke_def split: if_splits)
  from Cons.IH [OF rest] e1 show ?case by simp
qed

lemma run_calls_result:
  "run_calls K bop ctor cs = Inr e \<Longrightarrow> engine_class e = bop \<and> calls e = ctor # cs"
proof -
  assume r: "run_calls K bop ctor cs = Inr e"
  then obtain e0 where
    c: "construct K bop ctor = Inr e0" and rest: "invoke_all K e0 cs = Inr e"
    by (auto simp: run_calls_def and_then_def split: sum.splits)
  from c have "e0 = \<lparr>engine_class = bop, calls = [ctor]\<rparr>"
    by (auto simp: construct_def split: if_splits)
  with invoke_all_result [OF rest] show ?thesis by simp
qed

lemma BopAlgo_init_calls:
  "BopAlgo_init K shape1 shape2 parallel fuzzy_val bop =
     run_calls K bop
       (if is_shape shape1 \<and> is_shape shape2 then Ctor2 shape1 shape2 else Ctor0)
       (config_calls parallel fuzzy_val)"
  by (cases fuzzy_val; cases parallel)
     (auto simp: BopAlgo_init_def run_calls_def config_calls_def and_then_def
           split: sum.splits)

lemma SplitShapes_calls:
  "is_shape shape1 \<Longrightarrow> is_shape shape2 \<Longrightarrow>
   SplitShapes K shape1 shape2 parallel fuzzy_val =
     run_calls K GEOMAlgo_Splitter Ctor0
       (config_calls parallel fuzzy_val @ [AddArgument shape1, AddArgument shape2, Perform])"
  by (simp add: SplitShapes_def BopAlgo_init_calls run_calls_def invoke_all_append)
     (auto simp: and_then_def split: sum.splits)

lemma invoke_all_accepted:
  "(\<And>h c. c \<in> set cs \<Longrightarrow> \<not> raises K (engine_class e) h c) \<Longrightarrow>
   invoke_all K e cs = Inr (e\<lparr>calls := calls e @ cs\<rparr>)"
proof (induction cs arbitrary: e)
  case Nil
  show ?case by simp
next
  case (Cons c cs)
  have here: "invoke K e c = Inr (e\<lparr>calls := calls e @ [c]\<rparr>)"
    using Cons.prems [of c] by (simp add: invoke_def)
  have rest:
    "invoke_all K (e\<lparr>calls := calls e @ [c]\<rparr>) cs =
       Inr (e\<lparr>calls := calls e @ [c], calls := calls e @ [c] @ cs\<rparr>)"
    using Cons.IH [of "e\<lparr>calls := calls e @ [c]\<rparr>"] Cons.prems by simp
  show ?case by (simp add: here rest and_then_def)
qed

lemma run_calls_accepted:
  "(\<And>h c. c \<in> set (ctor # cs) \<Longrightarrow> \<not> raises K bop h c) \<Longrightarrow>
   run_calls K bop ctor cs = Inr \<lparr>engine_class = bop, calls = ctor # cs\<rparr>"
proof -
  assume ok: "\<And>h c. c \<in> set (ctor # cs) \<Longrightarrow> \<not> raises K bop h c"
  have c: "construct K bop ctor = Inr \<lparr>engine_class = bop, calls = [ctor]\<rparr>"
    using ok [of ctor] by (simp add: construct_def)
  have "invoke_all K \<lparr>engine_class = bop, calls = [ctor]\<rparr> cs =
          Inr \<lparr>engine_class = bop, calls = [ctor] @ cs\<rparr>"
    using invoke_all_accepted [of cs K "\<lparr>engine_class = bop, calls = [ctor]\<rparr>"] ok
    by simp
  with c show ?thesis by (simp add: run_calls_def and_then_def)
qed


lemma last_config_calls: "Build \<notin> set (config_calls parallel fuzzy_val) \<and>
    Perform \<notin> set (config_calls parallel fuzzy_val)"
  by (cases fuzzy_val) (simp_all add: config_calls_def)

lemmas kernel_defs = doctest_kernel_def failing_kernel_def strict_kernel_def

lemmas facade_defs =
  SplitShapes_def FuseShapes_def BopAlgo_init_def construct_def invoke_def and_then_def
  is_done_def is_splitter_def

subsection \<open>Construction of a splitter\<close>

text \<open>
  C1 (amended). When \<open>SplitShapes\<close> is constructed with two valid operand shapes, the
  splitter engine is first created with zero operands, the parallel flag and the fuzzy
  value are forwarded, then \<open>shape1\<close> and \<open>shape2\<close> are each added as an argument, in
  this order, no tool is added, and the operation is executed during construction: the
  constructor is this sequence of kernel calls, and it returns the engine with exactly
  this history when the kernel accepts them.
\<close>

theorem SplitShapes_adds_two_arguments:
  assumes "is_shape shape1" and "is_shape shape2"
  shows "SplitShapes K shape1 shape2 parallel fuzzy_val =
           run_calls K GEOMAlgo_Splitter Ctor0
             (config_calls parallel fuzzy_val @
              [AddArgument shape1, AddArgument shape2, Perform]) \<and>
         (\<forall>e. SplitShapes K shape1 shape2 parallel fuzzy_val = Inr e \<longrightarrow>
            engine_class e = GEOMAlgo_Splitter \<and>
            calls e = Ctor0 # config_calls parallel fuzzy_val @
              [AddArgument shape1, AddArgument shape2, Perform] \<and>
            list_all (\<lambda>c. \<forall>s. c \<noteq> AddTool s) (calls e))"
proof -
  let ?cs = "config_calls parallel fuzzy_val @
    [AddArgument shape1, AddArgument shape2, Perform]"
  have eq: "SplitShapes K shape1 shape2 parallel fuzzy_val =
      run_calls K GEOMAlgo_Splitter Ctor0 ?cs"
    using assms by (rule SplitShapes_calls)
  have no_tool: "list_all (\<lambda>c. \<forall>s. c \<noteq> AddTool s) (Ctor0 # ?cs)"
    by (cases fuzzy_val) (simp_all add: config_calls_def)
  show ?thesis
    using eq no_tool run_calls_result [of K GEOMAlgo_Splitter Ctor0 ?cs] by auto
qed

theorem SplitShapes_adds_two_arguments_witness:
  "is_shape (TopoDS_Shape 1) \<and> is_shape (TopoDS_Shape 2) \<and>
   SplitShapes doctest_kernel (TopoDS_Shape 1) (TopoDS_Shape 2) True None =
     Inr \<lparr>engine_class = GEOMAlgo_Splitter,
          calls = [Ctor0, SetRunParallel True, AddArgument (TopoDS_Shape 1),
                   AddArgument (TopoDS_Shape 2), Perform]\<rparr>"
proof -
  have "SplitShapes doctest_kernel (TopoDS_Shape 1) (TopoDS_Shape 2) True None =
      run_calls doctest_kernel GEOMAlgo_Splitter Ctor0
        (config_calls True None @
         [AddArgument (TopoDS_Shape 1), AddArgument (TopoDS_Shape 2), Perform])"
    using SplitShapes_adds_two_arguments
      [of "TopoDS_Shape 1" "TopoDS_Shape 2" doctest_kernel True None]
    by simp
  then show ?thesis
    by (simp add: run_calls_def config_calls_def kernel_defs facade_defs)
qed

text \<open>
  The claim as stated fails: after \<open>SplitShapes(s7, s8, fuzzy_val=0.5)\<close> the second
  shape has been added by \<open>AddArgument\<close>, and no \<open>AddTool\<close> call has been made.
\<close>

theorem SplitShapes_second_shape_not_a_tool:
  "SplitShapes doctest_kernel (TopoDS_Shape 7) (TopoDS_Shape 8) True (Some 0.5) =
     Inr \<lparr>engine_class = GEOMAlgo_Splitter,
          calls = [Ctor0, SetRunParallel True, SetFuzzyValue 0.5,
                   AddArgument (TopoDS_Shape 7), AddArgument (TopoDS_Shape 8), Perform]\<rparr> \<and>
   AddTool (TopoDS_Shape 8) \<notin>
     set [Ctor0, SetRunParallel True, SetFuzzyValue 0.5,
          AddArgument (TopoDS_Shape 7), AddArgument (TopoDS_Shape 8), Perform]"
  by (simp add: kernel_defs facade_defs)

text \<open>
  C3 (amended). For a \<open>SplitShapes\<close> instance constructed with two valid operand
  shapes, the operation has already been executed when the constructor returns, with
  no call of \<open>build\<close>: \<open>Perform\<close> is the last call made on the engine. \<open>is_done\<close> is
  then the engine's error status equalling 0, so it is true immediately after
  construction exactly when the engine completed the operation without error.
\<close>

theorem SplitShapes_performed_at_construction:
  assumes "is_shape shape1" and "is_shape shape2"
  shows "(\<forall>e. SplitShapes K shape1 shape2 parallel fuzzy_val = Inr e \<longrightarrow>
            is_splitter e \<and> last (calls e) = Perform \<and> Build \<notin> set (calls e) \<and>
            is_done K e = (ErrorStatus K e = 0)) \<and>
         ((\<forall>h c. \<not> raises K GEOMAlgo_Splitter h c) \<longrightarrow>
            (\<exists>e. SplitShapes K shape1 shape2 parallel fuzzy_val = Inr e))"
proof -
  let ?cs = "config_calls parallel fuzzy_val @
    [AddArgument shape1, AddArgument shape2, Perform]"
  have eq: "SplitShapes K shape1 shape2 parallel fuzzy_val =
      run_calls K GEOMAlgo_Splitter Ctor0 ?cs"
    using assms by (rule SplitShapes_calls)
  have "is_splitter e \<and> last (calls e) = Perform \<and> Build \<notin> set (calls e) \<and>
      is_done K e = (ErrorStatus K e = 0)"
    if "SplitShapes K shape1 shape2 parallel fuzzy_val = Inr e" for e
  proof -
    from that eq have "run_calls K GEOMAlgo_Splitter Ctor0 ?cs = Inr e"
      by simp
    then have cls: "engine_class e = GEOMAlgo_Splitter" and cs: "calls e = Ctor0 # ?cs"
      using run_calls_result [of K GEOMAlgo_Splitter Ctor0 ?cs e] by simp_all
    have "Build \<notin> set (calls e)"
      using last_config_calls [of parallel fuzzy_val] by (simp add: cs)
    then show ?thesis
      by (simp add: cls cs is_splitter_def is_done_def)
  qed
  moreover have "\<exists>e. SplitShapes K shape1 shape2 parallel fuzzy_val = Inr e"
    if "\<forall>h c. \<not> raises K GEOMAlgo_Splitter h c"
    using that run_calls_accepted [of Ctor0 ?cs K GEOMAlgo_Splitter] eq by simp
  ultimately show ?thesis by blast
qed

theorem SplitShapes_performed_at_construction_witness:
  "is_shape (TopoDS_Shape 1) \<and> is_shape (TopoDS_Shape 2) \<and>
   SplitShapes doctest_kernel (TopoDS_Shape 1) (TopoDS_Shape 2) True None =
     Inr \<lparr>engine_class = GEOMAlgo_Splitter,
          calls = [Ctor0, SetRunParallel True, AddArgument (TopoDS_Shape 1),
                   AddArgument (TopoDS_Shape 2), Perform]\<rparr> \<and>
   is_done doctest_kernel
     \<lparr>engine_class = GEOMAlgo_Splitter,
      calls = [Ctor0, SetRunParallel True, AddArgument (TopoDS_Shape 1),
               AddArgument (TopoDS_Shape 2), Perform]\<rparr>"
proof -
  let ?e = "\<lparr>engine_class = GEOMAlgo_Splitter,
      calls = [Ctor0, SetRunParallel True, AddArgument (TopoDS_Shape 1),
               AddArgument (TopoDS_Shape 2), Perform]\<rparr>"
  have s1: "is_shape (TopoDS_Shape 1)" and s2: "is_shape (TopoDS_Shape 2)"
    by simp_all
  have r: "SplitShapes doctest_kernel (TopoDS_Shape 1) (TopoDS_Shape 2) True None = Inr ?e"
    by (simp add: kernel_defs facade_defs)
  have "is_done doctest_kernel ?e = (ErrorStatus doctest_kernel ?e = 0)"
    using SplitShapes_performed_at_construction [OF s1 s2, of doctest_kernel True None] r
    by blast
  then have "is_done doctest_kernel ?e" by (simp add: kernel_defs)
  with r show ?thesis by simp
qed

text \<open>
  The claim as stated fails where the engine does not complete the operation: the
  operands are valid, \<open>Perform\<close> has been called, and \<open>is_done\<close> is false after
  construction, the error status being 1.
\<close>

theorem SplitShapes_failed_engine_not_done:
  "is_shape (TopoDS_Shape 1) \<and> is_shape (TopoDS_Shape 2) \<and>
   SplitShapes failing_kernel (TopoDS_Shape 1) (TopoDS_Shape 2) True None =
     Inr \<lparr>engine_class = GEOMAlgo_Splitter,
          calls = [Ctor0, SetRunParallel True, AddArgument (TopoDS_Shape 1),
                   AddArgument (TopoDS_Shape 2), Perform]\<rparr> \<and>
   \<not> is_done failing_kernel
     \<lparr>engine_class = GEOMAlgo_Splitter,
      calls = [Ctor0, SetRunParallel True, AddArgument (TopoDS_Shape 1),
               AddArgument (TopoDS_Shape 2), Perform]\<rparr>"
  by (simp add: kernel_defs facade_defs)

subsection \<open>Construction of the other four variants\<close>

text \<open>
  C2 (amended). For every variant other than the splitter (Fuse, Cut, Common,
  Intersect), constructing the facade with two valid operand shapes makes no \<open>Build\<close>
  and no \<open>Perform\<close> call: the engine is created by its two-operand constructor and
  receives the parallel flag and the fuzzy value, nothing else. \<open>is_done\<close> after
  construction is the engine's own \<open>IsDone\<close> flag for an engine so created, and an
  explicit \<open>build\<close> is the engine's \<open>Build\<close>.
\<close>

theorem facade_two_operands_makes_no_build_call:
  assumes "v \<noteq> Split" and "is_shape shape1" and "is_shape shape2"
  shows "facade K v shape1 shape2 parallel fuzzy_val =
           run_calls K (engine_of v) (Ctor2 shape1 shape2) (config_calls parallel fuzzy_val) \<and>
         Build \<notin> set (config_calls parallel fuzzy_val) \<and>
         Perform \<notin> set (config_calls parallel fuzzy_val) \<and>
         (\<forall>e. facade K v shape1 shape2 parallel fuzzy_val = Inr e \<longrightarrow>
            calls e = Ctor2 shape1 shape2 # config_calls parallel fuzzy_val \<and>
            is_done K e = IsDone K e \<and>
            build K e = invoke K e Build)"
proof -
  have init: "facade K v shape1 shape2 parallel fuzzy_val =
      BopAlgo_init K shape1 shape2 parallel fuzzy_val (engine_of v)"
    using assms(1)
    by (cases v) (simp_all add: FuseShapes_def CutShapes_def CommonShapes_def
        IntersectShapes_def)
  have cls: "engine_of v \<noteq> GEOMAlgo_Splitter"
    using assms(1) by (cases v) simp_all
  have eq: "facade K v shape1 shape2 parallel fuzzy_val =
      run_calls K (engine_of v) (Ctor2 shape1 shape2) (config_calls parallel fuzzy_val)"
    using assms(2,3) by (simp add: init BopAlgo_init_calls)
  have "calls e = Ctor2 shape1 shape2 # config_calls parallel fuzzy_val \<and>
      is_done K e = IsDone K e \<and> build K e = invoke K e Build"
    if "facade K v shape1 shape2 parallel fuzzy_val = Inr e" for e
  proof -
    from that eq have "engine_class e = engine_of v \<and>
        calls e = Ctor2 shape1 shape2 # config_calls parallel fuzzy_val"
      using run_calls_result by metis
    with cls show ?thesis
      by (simp add: is_done_def build_def is_splitter_def)
  qed
  with eq last_config_calls [of parallel fuzzy_val] show ?thesis by blast
qed

theorem facade_two_operands_makes_no_build_call_witness:
  "Cut \<noteq> Split \<and> is_shape (TopoDS_Shape 1) \<and> is_shape (TopoDS_Shape 2) \<and>
   CutShapes doctest_kernel (TopoDS_Shape 1) (TopoDS_Shape 2) True (Some 0.25) =
     Inr \<lparr>engine_class = BRepAlgoAPI_Cut,
          calls = [Ctor2 (TopoDS_Shape 1) (TopoDS_Shape 2), SetRunParallel True,
                   SetFuzzyValue 0.25]\<rparr>"
proof -
  have "facade doctest_kernel Cut (TopoDS_Shape 1) (TopoDS_Shape 2) True (Some 0.25) =
    run_calls doctest_kernel (engine_of Cut) (Ctor2 (TopoDS_Shape 1) (TopoDS_Shape 2))
      (config_calls True (Some 0.25))"
    using facade_two_operands_makes_no_build_call
      [of Cut "TopoDS_Shape 1" "TopoDS_Shape 2" doctest_kernel True "Some 0.25"]
    by simp
  then show ?thesis
    by (simp add: run_calls_def config_calls_def construct_def invoke_def
        and_then_def kernel_defs)
qed

text \<open>
  The claim as stated fails on the kernel the doctests of bop.py describe, where
  \<open>bop = FuseShapes(e1, e2)\<close> is followed at once by \<open>assert bop.is_done\<close>: the
  engine's two-operand constructor has executed the operation, and \<open>is_done\<close> is true
  after construction with no call of \<open>build\<close>.
\<close>

theorem FuseShapes_done_without_build:
  "is_shape (TopoDS_Shape 1) \<and> is_shape (TopoDS_Shape 2) \<and>
   FuseShapes doctest_kernel (TopoDS_Shape 1) (TopoDS_Shape 2) True None =
     Inr \<lparr>engine_class = BRepAlgoAPI_Fuse,
          calls = [Ctor2 (TopoDS_Shape 1) (TopoDS_Shape 2), SetRunParallel True]\<rparr> \<and>
   is_done doctest_kernel
     \<lparr>engine_class = BRepAlgoAPI_Fuse,
      calls = [Ctor2 (TopoDS_Shape 1) (TopoDS_Shape 2), SetRunParallel True]\<rparr>"
  by (simp add: kernel_defs facade_defs)

text \<open>
  C9. For every facade construction, of any of the five variants, in which at least
  one of the two operands is not a valid geometric shape, the operand raises nothing:
  construction is exactly the construction with no operands, the engine being created
  by its zero-operand constructor and then given the parallel flag and the fuzzy value
  as in every other construction. It returns that engine whenever the kernel accepts
  these calls.
\<close>

theorem facade_falls_back_to_no_operands:
  assumes "\<not> (is_shape shape1 \<and> is_shape shape2)"
  shows "facade K v shape1 shape2 parallel fuzzy_val =
           facade K v PyNone PyNone parallel fuzzy_val \<and>
         facade K v shape1 shape2 parallel fuzzy_val =
           run_calls K (engine_of v) Ctor0 (config_calls parallel fuzzy_val) \<and>
         ((\<forall>h. \<forall>c \<in> set (Ctor0 # config_calls parallel fuzzy_val).
              \<not> raises K (engine_of v) h c) \<longrightarrow>
            facade K v shape1 shape2 parallel fuzzy_val =
              Inr \<lparr>engine_class = engine_of v,
                   calls = Ctor0 # config_calls parallel fuzzy_val\<rparr>)"
proof -
  have sel: "(if is_shape shape1 \<and> is_shape shape2 then Ctor2 shape1 shape2 else Ctor0) =
      Ctor0"
    using assms by simp
  have split: "SplitShapes K s1 s2 parallel fuzzy_val =
      run_calls K GEOMAlgo_Splitter Ctor0 (config_calls parallel fuzzy_val)"
    if "\<not> (is_shape s1 \<and> is_shape s2)" for s1 s2
  proof -
    have "SplitShapes K s1 s2 parallel fuzzy_val =
        and_then (BopAlgo_init K PyNone PyNone parallel fuzzy_val GEOMAlgo_Splitter) Inr"
      using that by (auto simp: SplitShapes_def)
    then show ?thesis
      by (simp add: BopAlgo_init_calls and_then_def split: sum.splits)
  qed
  have eq: "facade K v shape1 shape2 parallel fuzzy_val =
      run_calls K (engine_of v) Ctor0 (config_calls parallel fuzzy_val)"
  proof (cases v)
    case Split
    then show ?thesis using split [OF assms] by simp
  qed (simp_all only: facade.simps engine_of.simps FuseShapes_def CutShapes_def
      CommonShapes_def IntersectShapes_def BopAlgo_init_calls sel)
  have none: "facade K v PyNone PyNone parallel fuzzy_val =
      run_calls K (engine_of v) Ctor0 (config_calls parallel fuzzy_val)"
  proof (cases v)
    case Split
    then show ?thesis using split [of PyNone PyNone] by simp
  qed (simp_all add: FuseShapes_def CutShapes_def CommonShapes_def IntersectShapes_def
      BopAlgo_init_calls)
  have "run_calls K (engine_of v) Ctor0 (config_calls parallel fuzzy_val) =
      Inr \<lparr>engine_class = engine_of v, calls = Ctor0 # config_calls parallel fuzzy_val\<rparr>"
    if "\<forall>h. \<forall>c \<in> set (Ctor0 # config_calls parallel fuzzy_val).
      \<not> raises K (engine_of v) h c"
    using that by (intro run_calls_accepted) blast
  with eq none show ?thesis by simp
qed

theorem facade_falls_back_to_no_operands_witness:
  "\<not> (is_shape (TopoDS_Shape 1) \<and> is_shape (PyFloat (Finite 2))) \<and>
   CommonShapes doctest_kernel (TopoDS_Shape 1) (PyFloat (Finite 2)) True (Some 0.5) =
     CommonShapes doctest_kernel PyNone PyNone True (Some 0.5) \<and>
   CommonShapes doctest_kernel (TopoDS_Shape 1) (PyFloat (Finite 2)) True (Some 0.5) =
     Inr \<lparr>engine_class = BRepAlgoAPI_Common,
          calls = [Ctor0, SetRunParallel True, SetFuzzyValue 0.5]\<rparr>"
proof -
  have ok: "\<forall>h. \<forall>c \<in> set (Ctor0 # config_calls True (Some 0.5)).
      \<not> raises doctest_kernel (engine_of Common) h c"
    by (simp add: kernel_defs)
  have inv: "\<not> (is_shape (TopoDS_Shape 1) \<and> is_shape (PyFloat (Finite 2)))"
    by simp
  note fb = facade_falls_back_to_no_operands
    [OF inv, of doctest_kernel Common True "Some 0.5"]
  from fb have same: "CommonShapes doctest_kernel (TopoDS_Shape 1) (PyFloat (Finite 2)) True (Some 0.5) =
      CommonShapes doctest_kernel PyNone PyNone True (Some 0.5)"
    unfolding facade.simps by blast
  from fb ok have "CommonShapes doctest_kernel (TopoDS_Shape 1) (PyFloat (Finite 2)) True (Some 0.5) =
      Inr \<lparr>engine_class = engine_of Common,
           calls = Ctor0 # config_calls True (Some 0.5)\<rparr>"
    unfolding facade.simps by blast
  then have "CommonShapes doctest_kernel (TopoDS_Shape 1) (PyFloat (Finite 2)) True (Some 0.5) =
      Inr \<lparr>engine_class = BRepAlgoAPI_Common,
           calls = [Ctor0, SetRunParallel True, SetFuzzyValue 0.5]\<rparr>"
    by (simp add: config_calls_def)
  with same inv show ?thesis by blast
qed

subsection \<open>Operands of a splitter\<close>

text \<open>
  C5. For a splitter instance, \<open>set_args\<close> and \<open>set_tools\<close> given a non-empty sequence
  add only the first element of the sequence as an argument (respectively as a tool),
  whatever the length of the sequence: the call is the single kernel call
  \<open>AddArgument\<close> (respectively \<open>AddTool\<close>) on the first element, and the other
  elements are discarded, the call having the effect of the call on the one-element
  sequence.
\<close>

theorem splitter_set_args_adds_first_only:
  assumes "is_splitter e" and "shapes \<noteq> []"
  shows "set_args K e shapes = invoke K e (AddArgument (hd shapes)) \<and>
         set_tools K e shapes = invoke K e (AddTool (hd shapes)) \<and>
         set_args K e shapes = set_args K e [hd shapes] \<and>
         set_tools K e shapes = set_tools K e [hd shapes]"
  using assms by (cases shapes) (simp_all add: set_args_def set_tools_def)

theorem splitter_set_args_adds_first_only_witness:
  "is_splitter \<lparr>engine_class = GEOMAlgo_Splitter, calls = [Ctor0]\<rparr> \<and>
   [TopoDS_Shape 1, TopoDS_Shape 2, TopoDS_Shape 3] \<noteq> [] \<and>
   set_args doctest_kernel \<lparr>engine_class = GEOMAlgo_Splitter, calls = [Ctor0]\<rparr>
       [TopoDS_Shape 1, TopoDS_Shape 2, TopoDS_Shape 3] =
     Inr \<lparr>engine_class = GEOMAlgo_Splitter,
          calls = [Ctor0, AddArgument (TopoDS_Shape 1)]\<rparr> \<and>
   set_tools doctest_kernel \<lparr>engine_class = GEOMAlgo_Splitter, calls = [Ctor0]\<rparr>
       [TopoDS_Shape 1, TopoDS_Shape 2, TopoDS_Shape 3] =
     Inr \<lparr>engine_class = GEOMAlgo_Splitter, calls = [Ctor0, AddTool (TopoDS_Shape 1)]\<rparr>"
  using splitter_set_args_adds_first_only
    [of "\<lparr>engine_class = GEOMAlgo_Splitter, calls = [Ctor0]\<rparr>"
        "[TopoDS_Shape 1, TopoDS_Shape 2, TopoDS_Shape 3]" doctest_kernel]
  by (simp add: is_splitter_def invoke_def kernel_defs)




subsection \<open>Capabilities the splitter lacks\<close>

text \<open>
  C8. On a splitter instance, \<open>refine_edges\<close> and \<open>section_edges\<close> never raise and
  make no kernel call: \<open>refine_edges\<close> emits one warning and returns with the engine
  as it was, \<open>section_edges\<close> emits one warning and returns the empty sequence, and
  \<open>fuse_edges\<close> is false.
\<close>

theorem splitter_unsupported_capabilities:
  assumes "is_splitter e"
  shows "refine_edges K e =
           Inr (e, [RuntimeWarning ''Refine edges not implemented for GEOMAlgo_Splitter.'']) \<and>
         section_edges K e =
           ([], [RuntimeWarning
              ''Section edges not implemented for GEOMAlgo_Splitter. Returning empty list.'']) \<and>
         fuse_edges K e = False"
  using assms by (simp add: refine_edges_def section_edges_def fuse_edges_def)

theorem splitter_unsupported_capabilities_witness:
  "is_splitter \<lparr>engine_class = GEOMAlgo_Splitter, calls = [Ctor0, Perform]\<rparr> \<and>
   refine_edges strict_kernel \<lparr>engine_class = GEOMAlgo_Splitter, calls = [Ctor0, Perform]\<rparr> =
     Inr (\<lparr>engine_class = GEOMAlgo_Splitter, calls = [Ctor0, Perform]\<rparr>,
          [RuntimeWarning ''Refine edges not implemented for GEOMAlgo_Splitter.'']) \<and>
   fst (section_edges strict_kernel
          \<lparr>engine_class = GEOMAlgo_Splitter, calls = [Ctor0, Perform]\<rparr>) = [] \<and>
   \<not> fuse_edges strict_kernel \<lparr>engine_class = GEOMAlgo_Splitter, calls = [Ctor0, Perform]\<rparr>"
  using splitter_unsupported_capabilities
    [of "\<lparr>engine_class = GEOMAlgo_Splitter, calls = [Ctor0, Perform]\<rparr>" strict_kernel]
  by (simp add: is_splitter_def)

section \<open>Properties of the marshalling layer\<close>

subsection \<open>Integers as doubles\<close>

lemma round_to_53_small: "\<bar>i\<bar> < 2 ^ 53 \<Longrightarrow> round_to_53 i = i"
proof -
  assume s: "\<bar>i\<bar> < 2 ^ 53"
  have "bitlen \<bar>i\<bar> \<le> 53"
    using s by (simp add: bitlen_le_iff_power)
  then have "nat (bitlen \<bar>i\<bar> - 53) = 0" by simp
  then show ?thesis
    by (simp add: round_to_53_def Let_def mult_sgn_abs)
qed

lemma int_to_double_small: "\<bar>i\<bar> < 2 ^ 53 \<Longrightarrow> int_to_double i = Some (Finite (of_int i))"
  by (simp add: int_to_double_def round_to_53_small)

lemma round_to_53_error: "2 ^ 53 * \<bar>round_to_53 i - i\<bar> \<le> \<bar>i\<bar>"
proof -
  define a where "a = \<bar>i\<bar>"
  define e where "e = nat (bitlen a - 53)"
  define q where "q = a div 2 ^ e"
  define r where "r = a mod 2 ^ e"
  define q' where "q' = (if 2 ^ e < 2 * r \<or> (2 * r = 2 ^ e \<and> odd q) then q + 1 else q)"
  have v: "round_to_53 i = sgn i * (q' * 2 ^ e)"
    by (simp add: round_to_53_def Let_def a_def e_def q_def r_def q'_def)
  have a: "a = q * 2 ^ e + r"
    unfolding q_def r_def by (simp only: div_mult_mod_eq)
  have r0: "0 \<le> r" and r1: "r < 2 ^ e"
    by (simp_all add: r_def)
  have i: "i = sgn i * a"
    by (simp add: a_def mult_sgn_abs)
  have "round_to_53 i - i = sgn i * (q' * 2 ^ e - a)"
    using i by (simp add: v right_diff_distrib)
  then have diff: "\<bar>round_to_53 i - i\<bar> = \<bar>sgn i\<bar> * \<bar>q' * 2 ^ e - a\<bar>"
    by (simp add: abs_mult)
  have half: "2 * \<bar>q' * 2 ^ e - a\<bar> \<le> 2 ^ e" and zero: "e = 0 \<Longrightarrow> q' * 2 ^ e - a = 0"
    using r0 r1 by (auto simp: q'_def a algebra_simps split: if_splits)
  show ?thesis
  proof (cases "e = 0")
    case True
    with zero diff show ?thesis by simp
  next
    case False
    then have big: "53 < bitlen a"
      by (simp add: e_def)
    then have bl: "bitlen a - 1 = int e + 52"
      by (simp add: e_def)
    from big have "bitlen a \<noteq> 0" by simp
    then have pos: "0 < a"
      by (simp add: bitlen_eq_zero_iff)
    have "2 ^ nat (bitlen a - 1) \<le> a"
      using bitlen_bounds [OF pos] by simp
    then have low: "(2::int) ^ (e + 52) \<le> a"
      by (simp add: bl nat_add_distrib)
    have "2 ^ 53 * \<bar>q' * 2 ^ e - a\<bar> = 2 ^ 52 * (2 * \<bar>q' * 2 ^ e - a\<bar>)"
      by simp
    also have "\<dots> \<le> 2 ^ 52 * 2 ^ e"
      using half by (intro mult_left_mono) simp_all
    also have "\<dots> = (2::int) ^ (e + 52)"
      by (simp add: power_add)
    finally have le: "2 ^ 53 * \<bar>q' * 2 ^ e - a\<bar> \<le> a"
      using low by linarith
    show ?thesis
    proof (cases "i = 0")
      case True
      with diff show ?thesis by simp
    next
      case False
      then have "\<bar>sgn i\<bar> = 1" by (simp add: sgn_if)
      with diff have "\<bar>round_to_53 i - i\<bar> = \<bar>q' * 2 ^ e - a\<bar>" by simp
      with le show ?thesis by (simp only: a_def)
    qed
  qed
qed

lemma int_to_double_error:
  assumes "int_to_double i = Some d"
  shows "\<exists>x. d = Finite x \<and> \<bar>x - of_int i\<bar> \<le> \<bar>of_int i\<bar> / 2 ^ 53"
proof -
  from assms have d: "d = Finite (of_int (round_to_53 i))"
    by (auto simp: int_to_double_def Let_def split: if_splits)
  have "real_of_int (2 ^ 53 * \<bar>round_to_53 i - i\<bar>) \<le> real_of_int \<bar>i\<bar>"
    using round_to_53_error [of i] by (simp only: of_int_le_iff)
  then have "2 ^ 53 * \<bar>real_of_int (round_to_53 i) - of_int i\<bar> \<le> \<bar>of_int i\<bar>"
    by simp
  then have "\<bar>real_of_int (round_to_53 i) - of_int i\<bar> \<le> \<bar>of_int i\<bar> / 2 ^ 53"
    by (simp add: field_simps)
  with d show ?thesis by blast
qed

lemma round_to_53_large: "2 ^ 1024 \<le> \<bar>i\<bar> \<Longrightarrow> 2 ^ 1024 \<le> \<bar>round_to_53 i\<bar>"
proof -
  assume big: "2 ^ 1024 \<le> \<bar>i\<bar>"
  define a where "a = \<bar>i\<bar>"
  define e where "e = nat (bitlen a - 53)"
  define q where "q = a div 2 ^ e"
  define r where "r = a mod 2 ^ e"
  define q' where "q' = (if 2 ^ e < 2 * r \<or> (2 * r = 2 ^ e \<and> odd q) then q + 1 else q)"
  have v: "round_to_53 i = sgn i * (q' * 2 ^ e)"
    by (simp add: round_to_53_def Let_def a_def e_def q_def r_def q'_def)
  have a1024: "2 ^ 1024 \<le> a" using big by (simp add: a_def)
  then have pos: "0 < a" by (smt (verit) zero_less_power)
  have "\<not> bitlen a \<le> 1024"
    using a1024 by (simp add: bitlen_le_iff_power)
  then have e: "972 \<le> e" by (simp add: e_def)
  have bl: "bitlen a - 1 = int e + 52"
    using e by (simp add: e_def)
  have "2 ^ nat (bitlen a - 1) \<le> a"
    using bitlen_bounds [OF pos] by simp
  then have low: "(2::int) ^ 52 * 2 ^ e \<le> a"
    by (simp add: bl nat_add_distrib power_add mult.commute)
  have "(2 ^ 52 * 2 ^ e) div 2 ^ e \<le> a div (2::int) ^ e"
    using low by (intro zdiv_mono1) simp_all
  then have q: "2 ^ 52 \<le> q"
    by (simp add: q_def)
  have "q \<le> q'" by (simp add: q'_def)
  with q have q52: "2 ^ 52 \<le> q'" by simp
  then have "2 ^ 52 * (2::int) ^ 972 \<le> q' * 2 ^ e"
    using e by (intro mult_mono power_increasing) simp_all
  then have bound: "2 ^ 1024 \<le> q' * 2 ^ e" by simp
  have s1: "\<bar>sgn i\<bar> = 1"
    using pos by (simp add: a_def sgn_if)
  have q0: "\<bar>q'\<bar> = q'"
    using q52 by simp
  have "\<bar>round_to_53 i\<bar> = \<bar>sgn i\<bar> * (\<bar>q'\<bar> * 2 ^ e)"
    by (simp only: v abs_mult) simp
  then have "\<bar>round_to_53 i\<bar> = q' * 2 ^ e"
    by (simp only: s1 q0 mult_1)
  with bound show ?thesis by simp
qed

lemma int_to_double_overflow: "2 ^ 1024 \<le> \<bar>i\<bar> \<Longrightarrow> int_to_double i = None"
  using round_to_53_large [of i] by (simp add: int_to_double_def Let_def)

lemma int_to_double_rounds: "int_to_double 9007199254740993 = Some (Finite 9007199254740992)"
proof -
  have "round_to_53 9007199254740993 = 9007199254740992"
    by code_simp
  then show ?thesis
    by (simp add: int_to_double_def)
qed

lemma int_to_double_out_of_range: "int_to_double (10 ^ 400) = None"
  by (rule int_to_double_overflow) simp

subsection \<open>Loops of the converters\<close>

lemma coerce_pnts_coerced:
  "(\<And>p. p \<in> set pnts \<Longrightarrow> \<not> isl (to_gp_pnt p)) \<Longrightarrow>
   coerce_pnts pnts acc = Inr (acc @ coerced pnts)"
proof (induction pnts arbitrary: acc)
  case Nil
  show ?case by (simp add: coerced_def)
next
  case (Cons p pnts)
  have rest: "coerce_pnts pnts acc' = Inr (acc' @ coerced pnts)" for acc'
    using Cons.IH Cons.prems by simp
  have "\<not> isl (to_gp_pnt p)" using Cons.prems by simp
  then show ?case
    by (cases "to_gp_pnt p") (auto simp: rest coerced_def split: option.splits)
qed

lemma length_coerced:
  "(\<And>p. p \<in> set pnts \<Longrightarrow> \<not> isl (to_gp_pnt p)) \<Longrightarrow>
   length (coerced pnts) + length (filter skipped pnts) = length pnts"
proof (induction pnts)
  case Nil
  show ?case by (simp add: coerced_def)
next
  case (Cons p pnts)
  have ih: "length (coerced pnts) + length (filter skipped pnts) = length pnts"
    using Cons by simp
  have c: "coerced (p # pnts) =
      (case to_gp_pnt p of Inr (Some g) \<Rightarrow> [g] | _ \<Rightarrow> []) @ coerced pnts"
    by (simp add: coerced_def)
  have "\<not> isl (to_gp_pnt p)" using Cons.prems by simp
  then show ?case using ih unfolding skipped_def
    by (cases "to_gp_pnt p") (auto simp: c split: option.splits)
qed

lemma set_values_fills:
  "set_values SetValue
     \<lparr>Lower = 1, Upper = length pre + length xs, Items = pre @ replicate (length xs) d\<rparr>
     (length pre + 1) xs =
   Inr \<lparr>Lower = 1, Upper = length pre + length xs, Items = pre @ xs\<rparr>"
proof (induction xs arbitrary: pre)
  case Nil
  show ?case by simp
next
  case (Cons x xs)
  have put: "SetValue
      \<lparr>Lower = 1, Upper = length pre + length (x # xs),
       Items = pre @ replicate (length (x # xs)) d\<rparr> (length pre + 1) x =
    Inr \<lparr>Lower = 1, Upper = length (pre @ [x]) + length xs,
         Items = (pre @ [x]) @ replicate (length xs) d\<rparr>"
    by (simp add: SetValue_def)
  have step: "set_values SetValue
      \<lparr>Lower = 1, Upper = length pre + length (x # xs),
       Items = pre @ replicate (length (x # xs)) d\<rparr> (length pre + 1) (x # xs) =
    set_values SetValue
      \<lparr>Lower = 1, Upper = length (pre @ [x]) + length xs,
       Items = (pre @ [x]) @ replicate (length xs) d\<rparr> (length (pre @ [x]) + 1) xs"
    by (simp only: set_values.simps put and_then_def sum.case) simp
  have fin: "\<lparr>Lower = 1, Upper = length (pre @ [x]) + length xs, Items = (pre @ [x]) @ xs\<rparr> =
      \<lparr>Lower = 1, Upper = length pre + length (x # xs), Items = pre @ x # xs\<rparr>"
    by simp
  show ?case
    by (simp only: step Cons.IH [of "pre @ [x]"] fin)
qed

lemma to_tcolgp_array1_pnt_result:
  assumes "\<And>p. p \<in> set pnts \<Longrightarrow> \<not> isl (to_gp_pnt p)"
  shows "to_tcolgp_array1_pnt pnts =
    Inr \<lparr>Lower = 1, Upper = length (coerced pnts), Items = coerced pnts\<rparr>"
proof -
  have c: "coerce_pnts pnts [] = Inr (coerced pnts)"
    using coerce_pnts_coerced [of pnts "[]"] assms by simp
  have "set_values SetValue (new_Array1 1 (length (coerced pnts)) (gp_Pnt (Finite 0) (Finite 0) (Finite 0))) 1
      (coerced pnts) =
    Inr \<lparr>Lower = 1, Upper = length (coerced pnts), Items = coerced pnts\<rparr>"
    using set_values_fills [of "[]" "coerced pnts" "gp_Pnt (Finite 0) (Finite 0) (Finite 0)"]
    by (simp add: new_Array1_def)
  then show ?thesis
    by (simp add: to_tcolgp_array1_pnt_def c and_then_def Let_def)
qed

lemma copy_pnts_rows:
  assumes "k \<le> length ps"
  shows "copy_pnts \<lparr>Lower = 1, Upper = length ps, Items = ps\<rparr> [k..<length ps]
      (map (\<lambda>p. [X p, Y p, Z p]) (take k ps) @ replicate (length ps - k) z) =
    Inr (map (\<lambda>p. [X p, Y p, Z p]) ps)"
  using assms
proof (induction "length ps - k" arbitrary: k)
  case 0
  then show ?case by simp
next
  case (Suc m)
  then have k: "k < length ps" by simp
  let ?row = "\<lambda>p. [X p, Y p, Z p]"
  have upt: "[k..<length ps] = k # [Suc k..<length ps]"
    using k by (simp add: upt_conv_Cons)
  have v: "Value \<lparr>Lower = 1, Upper = length ps, Items = ps\<rparr> (k + 1) = Inr (ps ! k)"
    using k by (simp add: Value_def)
  have rep: "replicate (length ps - k) z = z # replicate (length ps - Suc k) z"
    using k by (cases "length ps - k") (simp_all add: Suc_diff_Suc)
  have upd: "(map ?row (take k ps) @ replicate (length ps - k) z)[k := ?row (ps ! k)] =
      map ?row (take (Suc k) ps) @ replicate (length ps - Suc k) z"
    using k by (simp add: rep take_Suc_conv_app_nth list_update_append)
  have ih: "copy_pnts \<lparr>Lower = 1, Upper = length ps, Items = ps\<rparr> [Suc k..<length ps]
      (map ?row (take (Suc k) ps) @ replicate (length ps - Suc k) z) = Inr (map ?row ps)"
    using Suc.hyps(1) [of "Suc k"] Suc.hyps(2) k by simp
  show ?case
    by (simp only: upt copy_pnts.simps v and_then_def sum.case upd ih)
qed

lemma to_np_roundtrip_array:
  "to_np_from_tcolgp_array1_pnt \<lparr>Lower = 1, Upper = length ps, Items = ps\<rparr> =
     Inr (map (\<lambda>p. [X p, Y p, Z p]) ps)"
  using copy_pnts_rows [of 0 ps "[Finite 0, Finite 0, Finite 0]"]
  by (simp add: to_np_from_tcolgp_array1_pnt_def Length_def Let_def)


lemma skipped_iff:
  "skipped p =
     (case p of PyPnt g \<Rightarrow> False | PySeq xs \<Rightarrow> length xs \<noteq> 3 | _ \<Rightarrow> True)"
  by (cases p)
     (auto simp: skipped_def to_gp_pnt_def and_then_def split: sum.splits)

lemma coercible_coords:
  assumes "coercible p"
  shows "\<exists>g. to_gp_pnt p = Inr (Some g) \<and> [X g, Y g, Z g] = coords p"
proof (cases p)
  case (PySeq xs)
  with assms have len: "length xs = 3"
    by (auto simp: coercible_def to_gp_pnt_def split: if_splits)
  then obtain a b c where xs: "xs = [a, b, c]"
    by (auto simp: length_Suc_conv numeral_3_eq_3)
  from assms PySeq xs obtain g where g: "new_gp_Pnt [a, b, c] = Inr g"
    by (cases "new_gp_Pnt [a, b, c]")
       (auto simp: coercible_def to_gp_pnt_def and_then_def)
  then obtain x y z where
    "as_double a = Some x" "as_double b = Some y" "as_double c = Some z"
    and "g = gp_Pnt x y z"
    by (auto simp: new_gp_Pnt_def split: option.splits)
  with PySeq xs g show ?thesis
    by (simp add: to_gp_pnt_def and_then_def List.map_filter_def)
qed (use assms in \<open>auto simp: coercible_def to_gp_pnt_def\<close>)

lemma coerced_coords:
  "(\<And>p. p \<in> set pnts \<Longrightarrow> coercible p) \<Longrightarrow>
   map (\<lambda>g. [X g, Y g, Z g]) (coerced pnts) = map coords pnts"
proof (induction pnts)
  case Nil
  show ?case by (simp add: coerced_def)
next
  case (Cons p pnts)
  have ih: "map (\<lambda>g. [X g, Y g, Z g]) (coerced pnts) = map coords pnts"
    using Cons by simp
  obtain g where g: "to_gp_pnt p = Inr (Some g)" "[X g, Y g, Z g] = coords p"
    using coercible_coords [of p] Cons.prems by auto
  have "coerced (p # pnts) = g # coerced pnts"
    by (simp add: coerced_def g)
  with ih g show ?case by simp
qed

lemma coercible_not_raised: "coercible p \<Longrightarrow> \<not> isl (to_gp_pnt p)"
  by (cases "to_gp_pnt p") (simp_all add: coercible_def)

lemma coords_length: "coercible p \<Longrightarrow> length (coords p) = 3"
  using coercible_coords [of p] by (metis length_Cons list.size(3) numeral_3_eq_3)

lemma comprehension_fails:
  "x \<in> set xs \<Longrightarrow> isl (f x) \<Longrightarrow> isl (comprehension f xs)"
proof (induction xs)
  case Nil
  then show ?case by simp
next
  case (Cons y ys)
  show ?case
  proof (cases "f y")
    case (Inl err)
    then show ?thesis by (simp add: and_then_def)
  next
    case (Inr v)
    with Cons have "isl (comprehension f ys)" by auto
    with Inr show ?thesis
      by (cases "comprehension f ys") (simp_all add: and_then_def)
  qed
qed


lemma coerce_pnts_raises:
  "p \<in> set pnts \<Longrightarrow> isl (to_gp_pnt p) \<Longrightarrow> isl (coerce_pnts pnts acc)"
proof (induction pnts arbitrary: acc)
  case Nil
  then show ?case by simp
next
  case (Cons x pnts)
  show ?case
  proof (cases "to_gp_pnt x")
    case (Inl err)
    then show ?thesis by simp
  next
    case (Inr r)
    with Cons.prems have "p \<in> set pnts" by auto
    with Cons have "\<And>acc. isl (coerce_pnts pnts acc)" by blast
    with Inr show ?thesis by (cases r) simp_all
  qed
qed

lemma comprehension_total: "comprehension (\<lambda>x. Inr (g x)) xs = Inr (map g xs)"
  by (induction xs) (simp_all add: and_then_def)

lemma to_gp_pnt_floats:
  "to_gp_pnt (PySeq (map PyFloat v)) = Inr (if length v = 3 then Some (pnt_of v) else None)"
proof (cases "length v = 3")
  case True
  then obtain a b c where "v = [a, b, c]"
    by (auto simp: length_Suc_conv numeral_3_eq_3)
  then show ?thesis
    by (simp add: to_gp_pnt_def new_gp_Pnt_def and_then_def pnt_of_def)
next
  case False
  then show ?thesis by (simp add: to_gp_pnt_def)
qed

lemma array2_gp_pnts_eq:
  "array2_gp_pnts pnts =
     Inr (map (map (\<lambda>v. if length v = 3 then Some (pnt_of v) else None)) pnts)"
proof -
  let ?f = "\<lambda>v::double list. if length v = 3 then Some (pnt_of v) else None"
  have inner: "comprehension (\<lambda>v. Inr (?f v)) = (\<lambda>row. Inr (map ?f row))"
    by (rule ext) (rule comprehension_total)
  show ?thesis
    by (simp only: array2_gp_pnts_def to_gp_pnt_floats inner comprehension_total)
qed

lemma set_row_none: "None \<in> set row \<Longrightarrow> isl (set_row array i j row)"
proof (induction row arbitrary: array j)
  case Nil
  then show ?case by simp
next
  case (Cons gp row)
  show ?case
  proof (cases gp)
    case None
    then show ?thesis by (simp add: SetValue2_def and_then_def)
  next
    case (Some x)
    with Cons.prems have "None \<in> set row" by simp
    with Cons.IH have "\<And>a j. isl (set_row a i j row)" by blast
    then show ?thesis
      by (cases "SetValue2 array i j gp") (simp_all add: and_then_def)
  qed
qed

lemma set_rows_none:
  "row \<in> set rows \<Longrightarrow> None \<in> set row \<Longrightarrow> isl (set_rows array i rows)"
proof (induction rows arbitrary: array i)
  case Nil
  then show ?case by simp
next
  case (Cons r rows)
  show ?case
  proof (cases "set_row array i 1 r")
    case (Inl err)
    then show ?thesis by (simp add: and_then_def)
  next
    case (Inr a')
    have "r \<noteq> row"
    proof
      assume "r = row"
      with Cons.prems(2) have "isl (set_row array i 1 r)" by (simp add: set_row_none)
      with Inr show False by simp
    qed
    with Cons.prems have "row \<in> set rows" by auto
    with Cons have "isl (set_rows a' (i + 1) rows)" by blast
    with Inr show ?thesis by (simp add: and_then_def)
  qed
qed

lemma set_row_fills:
  assumes "1 \<le> i" and "i \<le> n" and "i - 1 < length C"
    and "C ! (i - 1) = pre @ replicate (length xs) d"
    and "length pre + length xs = m"
  shows "set_row \<lparr>LowerRow = 1, UpperRow = n, LowerCol = 1, UpperCol = m, Cells = C\<rparr> i
      (length pre + 1) (map Some xs) =
    Inr \<lparr>LowerRow = 1, UpperRow = n, LowerCol = 1, UpperCol = m,
         Cells = C[i - 1 := pre @ xs]\<rparr>"
  using assms
proof (induction xs arbitrary: pre C)
  case Nil
  then have "C[i - 1 := pre @ []] = C"
    by (simp add: list_update_same_conv)
  then show ?case by simp
next
  case (Cons x xs)
  let ?C = "C[i - 1 := (pre @ [x]) @ replicate (length xs) d]"
  have put: "SetValue2 \<lparr>LowerRow = 1, UpperRow = n, LowerCol = 1, UpperCol = m, Cells = C\<rparr> i
      (length pre + 1) (Some x) =
    Inr \<lparr>LowerRow = 1, UpperRow = n, LowerCol = 1, UpperCol = m, Cells = ?C\<rparr>"
    using Cons.prems by (simp add: SetValue2_def)
  have ih: "set_row \<lparr>LowerRow = 1, UpperRow = n, LowerCol = 1, UpperCol = m, Cells = ?C\<rparr> i
      (length (pre @ [x]) + 1) (map Some xs) =
    Inr \<lparr>LowerRow = 1, UpperRow = n, LowerCol = 1, UpperCol = m,
         Cells = ?C[i - 1 := (pre @ [x]) @ xs]\<rparr>"
    using Cons.prems by (intro Cons.IH) simp_all
  have fin: "?C[i - 1 := (pre @ [x]) @ xs] = C[i - 1 := pre @ x # xs]"
    by simp
  have idx: "length pre + 1 + 1 = length (pre @ [x]) + 1"
    by simp
  show ?case
    by (simp only: list.map set_row.simps put and_then_def sum.case idx ih fin)
qed

lemma set_rows_fills:
  assumes "\<And>row. row \<in> set rows \<Longrightarrow> length row = m"
  shows "set_rows
      \<lparr>LowerRow = 1, UpperRow = length done + length rows, LowerCol = 1, UpperCol = m,
       Cells = done @ replicate (length rows) (replicate m d)\<rparr>
      (length done + 1) (map (map Some) rows) =
    Inr \<lparr>LowerRow = 1, UpperRow = length done + length rows, LowerCol = 1, UpperCol = m,
         Cells = done @ rows\<rparr>"
  using assms
proof (induction rows arbitrary: "done")
  case Nil
  show ?case by simp
next
  case (Cons row rows)
  let ?n = "length done + length (row # rows)"
  let ?C = "done @ replicate (length (row # rows)) (replicate m d)"
  have len: "length row = m" using Cons.prems by simp
  have row: "set_row \<lparr>LowerRow = 1, UpperRow = ?n, LowerCol = 1, UpperCol = m, Cells = ?C\<rparr>
      (length done + 1) (length ([]::'a list) + 1) (map Some row) =
    Inr \<lparr>LowerRow = 1, UpperRow = ?n, LowerCol = 1, UpperCol = m,
         Cells = ?C[length done + 1 - 1 := [] @ row]\<rparr>"
    using len by (intro set_row_fills [where d = d]) (simp_all add: nth_append)
  have cells: "?C[length done + 1 - 1 := [] @ row] =
      (done @ [row]) @ replicate (length rows) (replicate m d)"
    by (simp add: list_update_append)
  have ih: "set_rows
      \<lparr>LowerRow = 1, UpperRow = length (done @ [row]) + length rows, LowerCol = 1,
       UpperCol = m, Cells = (done @ [row]) @ replicate (length rows) (replicate m d)\<rparr>
      (length (done @ [row]) + 1) (map (map Some) rows) =
    Inr \<lparr>LowerRow = 1, UpperRow = length (done @ [row]) + length rows, LowerCol = 1,
         UpperCol = m, Cells = (done @ [row]) @ rows\<rparr>"
    using Cons.prems by (intro Cons.IH) simp
  have n: "length (done @ [row]) + length rows = ?n" by simp
  have idx: "length done + 1 + 1 = length (done @ [row]) + 1" by simp
  have one: "length ([]::'a list) + 1 = 1" by simp
  show ?case
    using row ih
    by (simp only: list.map set_rows.simps and_then_def sum.case cells n idx one)
       simp
qed


lemma to_tcolgp_array2_pnt_result:
  assumes "grid \<noteq> []" and "rectangular grid"
    and "list_all (list_all (\<lambda>v. length v = 3)) grid"
  shows "to_tcolgp_array2_pnt grid =
    Inr \<lparr>LowerRow = 1, UpperRow = length grid, LowerCol = 1, UpperCol = length (hd grid),
         Cells = map (map pnt_of) grid\<rparr>"
proof -
  let ?m = "length (hd grid)"
  let ?d = "gp_Pnt (Finite 0) (Finite 0) (Finite 0)"
  obtain row0 rest where grid: "grid = row0 # rest"
    using assms(1) by (cases grid) auto
  have "map (map (\<lambda>v. if length v = 3 then Some (pnt_of v) else None)) grid =
      map (map (\<lambda>v. Some (pnt_of v))) grid"
    using assms(3) by (auto simp: list_all_iff)
  then have gp: "array2_gp_pnts grid = Inr (map (map Some) (map (map pnt_of) grid))"
    by (simp add: array2_gp_pnts_eq comp_def)
  have rows: "\<And>row. row \<in> set (map (map pnt_of) grid) \<Longrightarrow> length row = ?m"
    using assms(2) by (auto simp: rectangular_def list_all_iff)
  have "set_rows
      \<lparr>LowerRow = 1, UpperRow = length ([]::gp_Pnt list list) + length (map (map pnt_of) grid),
       LowerCol = 1, UpperCol = ?m,
       Cells = [] @ replicate (length (map (map pnt_of) grid)) (replicate ?m ?d)\<rparr>
      (length ([]::gp_Pnt list list) + 1) (map (map Some) (map (map pnt_of) grid)) =
    Inr \<lparr>LowerRow = 1,
         UpperRow = length ([]::gp_Pnt list list) + length (map (map pnt_of) grid),
         LowerCol = 1, UpperCol = ?m, Cells = [] @ map (map pnt_of) grid\<rparr>"
    using rows by (rule set_rows_fills)
  then have fill: "set_rows (new_Array2 1 (length grid) 1 ?m ?d) 1
      (map (map Some) (map (map pnt_of) grid)) =
    Inr \<lparr>LowerRow = 1, UpperRow = length grid, LowerCol = 1, UpperCol = ?m,
         Cells = map (map pnt_of) grid\<rparr>"
    by (simp add: new_Array2_def)
  have "to_tcolgp_array2_pnt grid =
      and_then (array2_gp_pnts grid)
        (\<lambda>gp_pnts. set_rows (new_Array2 1 (length grid) 1 ?m ?d) 1 gp_pnts)"
    using assms(2) grid by (simp add: to_tcolgp_array2_pnt_def Let_def)
  then show ?thesis
    by (simp only: gp and_then_def sum.case fill)
qed

lemma to_tcolgp_array2_pnt_raises:
  assumes "\<not> (grid \<noteq> [] \<and> rectangular grid \<and> list_all (list_all (\<lambda>v. length v = 3)) grid)"
  shows "isl (to_tcolgp_array2_pnt grid)"
proof (cases "grid \<noteq> [] \<and> rectangular grid")
  case False
  then show ?thesis
    by (cases grid) (auto simp: to_tcolgp_array2_pnt_def)
next
  case True
  then obtain row0 rest where grid: "grid = row0 # rest"
    by (cases grid) auto
  from True assms obtain row v where rv: "row \<in> set grid" "v \<in> set row" "length v \<noteq> 3"
    by (auto simp: list_all_iff)
  let ?f = "\<lambda>v::double list. if length v = 3 then Some (pnt_of v) else None"
  have "map ?f row \<in> set (map (map ?f) grid)" and "None \<in> set (map ?f row)"
    using rv by (auto simp: image_iff)
  then have "isl (set_rows a i (map (map ?f) grid))" for a :: "gp_Pnt Array2" and i
    by (rule set_rows_none)
  moreover have "to_tcolgp_array2_pnt grid =
      and_then (array2_gp_pnts grid)
        (\<lambda>gp_pnts. set_rows (new_Array2 1 (length grid) 1 (length (hd grid))
           (gp_Pnt (Finite 0) (Finite 0) (Finite 0))) 1 gp_pnts)"
    using True grid by (simp add: to_tcolgp_array2_pnt_def Let_def)
  ultimately show ?thesis
    by (simp add: array2_gp_pnts_eq and_then_def)
qed

lemma to_tcolgp_array1_pnt_raises:
  assumes "p \<in> set pnts" and "isl (to_gp_pnt p)"
  shows "isl (to_tcolgp_array1_pnt pnts)"
proof -
  have "isl (coerce_pnts pnts [])"
    using assms by (rule coerce_pnts_raises)
  then show ?thesis
    by (cases "coerce_pnts pnts []") (simp_all add: to_tcolgp_array1_pnt_def and_then_def)
qed

lemma close_to_self: "d \<noteq> NaN \<Longrightarrow> close_to d d"
  by (cases d) simp_all

lemma as_double_comes_back: "as_double a = Some x \<Longrightarrow> comes_back a x"
proof (cases a)
  case (PyFloat d)
  assume "as_double a = Some x"
  with PyFloat show ?thesis
    by (auto simp: comes_back_def within_tolerance_def close_to_self)
next
  case (PyInt i)
  assume "as_double a = Some x"
  with PyInt have "int_to_double i = Some x" by simp
  from int_to_double_error [OF this] PyInt show ?thesis
    by (auto simp: comes_back_def within_tolerance_def)
qed simp_all

lemma coercible_comes_back:
  assumes "coercible p"
  shows "list_all2 comes_back (host_coords p) (coords p)"
proof (cases p)
  case (PyPnt g)
  have "comes_back (PyFloat d) d" for d
    using as_double_comes_back [of "PyFloat d" d] by simp
  with PyPnt show ?thesis by simp
next
  case (PySeq xs)
  with assms have len: "length xs = 3"
    by (auto simp: coercible_def to_gp_pnt_def split: if_splits)
  then obtain a b c where xs: "xs = [a, b, c]"
    by (auto simp: length_Suc_conv numeral_3_eq_3)
  from assms PySeq xs obtain g where g: "new_gp_Pnt [a, b, c] = Inr g"
    by (cases "new_gp_Pnt [a, b, c]")
       (auto simp: coercible_def to_gp_pnt_def and_then_def)
  then obtain x y z where
    "as_double a = Some x" "as_double b = Some y" "as_double c = Some z"
    by (auto simp: new_gp_Pnt_def split: option.splits)
  with PySeq xs show ?thesis
    by (simp add: as_double_comes_back)
qed (use assms in \<open>auto simp: coercible_def to_gp_pnt_def\<close>)


subsection \<open>Skipping of uncoercible points\<close>

text \<open>
  C4 (amended). For every host point sequence converted by \<open>to_tcolgp_array1_pnt\<close>,
  the elements whose coercion gives no point, which are those that are neither a point
  nor an array-like value of length 3, are silently skipped: where the point
  constructor refuses no element, a sequence of N elements of which K are skipped
  yields an array of length N - K that holds exactly the coerced points in their
  order, with lower bound 1 and 1-based indexing. An array-like element of length 3
  that the point constructor refuses is not skipped: the conversion raises. The grid
  converter \<open>to_tcolgp_array2_pnt\<close> skips nothing: for a rectangular grid with at least
  one row whose entries all have three coordinates it returns the array with the
  extents of the grid and the point of every entry, and for every other grid it
  raises.
\<close>

theorem point_converters_skipping:
  "skipped p = (case p of PyPnt g \<Rightarrow> False | PySeq xs \<Rightarrow> length xs \<noteq> 3 | _ \<Rightarrow> True) \<and>
   ((\<forall>p \<in> set pnts. \<not> isl (to_gp_pnt p)) \<longrightarrow>
      to_tcolgp_array1_pnt pnts =
        Inr \<lparr>Lower = 1, Upper = length pnts - length (filter skipped pnts),
             Items = coerced pnts\<rparr> \<and>
      length (coerced pnts) = length pnts - length (filter skipped pnts)) \<and>
   ((\<exists>p \<in> set pnts. isl (to_gp_pnt p)) \<longrightarrow> isl (to_tcolgp_array1_pnt pnts)) \<and>
   (grid \<noteq> [] \<and> rectangular grid \<and> list_all (list_all (\<lambda>v. length v = 3)) grid \<longrightarrow>
      to_tcolgp_array2_pnt grid =
        Inr \<lparr>LowerRow = 1, UpperRow = length grid, LowerCol = 1,
             UpperCol = length (hd grid), Cells = map (map pnt_of) grid\<rparr>) \<and>
   (\<not> (grid \<noteq> [] \<and> rectangular grid \<and> list_all (list_all (\<lambda>v. length v = 3)) grid) \<longrightarrow>
      isl (to_tcolgp_array2_pnt grid))"
proof -
  have one: "to_tcolgp_array1_pnt pnts =
        Inr \<lparr>Lower = 1, Upper = length pnts - length (filter skipped pnts),
             Items = coerced pnts\<rparr> \<and>
      length (coerced pnts) = length pnts - length (filter skipped pnts)"
    if "\<forall>p \<in> set pnts. \<not> isl (to_gp_pnt p)"
  proof -
    have ok: "\<And>p. p \<in> set pnts \<Longrightarrow> \<not> isl (to_gp_pnt p)"
      using that by blast
    have "length (coerced pnts) + length (filter skipped pnts) = length pnts"
      using length_coerced [of pnts] ok by blast
    then have len: "length (coerced pnts) = length pnts - length (filter skipped pnts)"
      by simp
    have "to_tcolgp_array1_pnt pnts =
        Inr \<lparr>Lower = 1, Upper = length (coerced pnts), Items = coerced pnts\<rparr>"
      using to_tcolgp_array1_pnt_result [of pnts] ok by blast
    with len show ?thesis by simp
  qed
  have two: "isl (to_tcolgp_array1_pnt pnts)" if "\<exists>p \<in> set pnts. isl (to_gp_pnt p)"
    using that to_tcolgp_array1_pnt_raises by blast
  show ?thesis
    using one two skipped_iff [of p] to_tcolgp_array2_pnt_result [of grid]
      to_tcolgp_array2_pnt_raises [of grid]
    by blast
qed

theorem point_converters_skipping_witness:
  "list_all (\<lambda>p. \<not> isl (to_gp_pnt p))
     [PyPnt (gp_Pnt (Finite 1) (Finite 2) (Finite 3)), PyNone,
      PySeq [PyFloat (Finite 4), PyInt 5, PyFloat (Finite 6)],
      PySeq [PyFloat (Finite 1), PyFloat (Finite 2)], PyFloat (Finite 7)] \<and>
   to_tcolgp_array1_pnt
     [PyPnt (gp_Pnt (Finite 1) (Finite 2) (Finite 3)), PyNone,
      PySeq [PyFloat (Finite 4), PyInt 5, PyFloat (Finite 6)],
      PySeq [PyFloat (Finite 1), PyFloat (Finite 2)], PyFloat (Finite 7)] =
     Inr \<lparr>Lower = 1, Upper = 2,
          Items = [gp_Pnt (Finite 1) (Finite 2) (Finite 3),
                   gp_Pnt (Finite 4) (Finite 5) (Finite 6)]\<rparr> \<and>
   list_ex (\<lambda>p. isl (to_gp_pnt p)) [PyNone, PySeq [PyInt (10 ^ 400), PyInt 0, PyInt 0]] \<and>
   isl (to_tcolgp_array1_pnt [PyNone, PySeq [PyInt (10 ^ 400), PyInt 0, PyInt 0]]) \<and>
   rectangular [[[Finite 1, Finite 2, Finite 3], [Finite 4, Finite 5, NaN]]] \<and>
   to_tcolgp_array2_pnt [[[Finite 1, Finite 2, Finite 3], [Finite 4, Finite 5, NaN]]] =
     Inr \<lparr>LowerRow = 1, UpperRow = 1, LowerCol = 1, UpperCol = 2,
          Cells = [[gp_Pnt (Finite 1) (Finite 2) (Finite 3),
                    gp_Pnt (Finite 4) (Finite 5) NaN]]\<rparr> \<and>
   isl (to_tcolgp_array2_pnt [[[Finite 1, Finite 2, Finite 3]], []])"
proof -
  let ?pnts = "[PyPnt (gp_Pnt (Finite 1) (Finite 2) (Finite 3)), PyNone,
      PySeq [PyFloat (Finite 4), PyInt 5, PyFloat (Finite 6)],
      PySeq [PyFloat (Finite 1), PyFloat (Finite 2)], PyFloat (Finite 7)]"
  let ?bad = "[PyNone, PySeq [PyInt (10 ^ 400), PyInt 0, PyInt 0]]"
  let ?grid = "[[[Finite 1, Finite 2, Finite 3], [Finite 4, Finite 5, NaN]]]"
  let ?ragged = "[[[Finite 1, Finite 2, Finite 3]], []] :: double list list list"
  have five: "int_to_double 5 = Some (Finite 5)"
    using int_to_double_small [of 5] by simp
  have ok: "list_all (\<lambda>p. \<not> isl (to_gp_pnt p)) ?pnts"
    by (simp add: to_gp_pnt_def new_gp_Pnt_def and_then_def five)
  then have all: "\<forall>p \<in> set ?pnts. \<not> isl (to_gp_pnt p)"
    by (simp only: list_all_iff)
  have "to_tcolgp_array1_pnt ?pnts =
      Inr \<lparr>Lower = 1, Upper = length ?pnts - length (filter skipped ?pnts),
           Items = coerced ?pnts\<rparr>"
    using point_converters_skipping [of _ ?pnts] all by blast
  then have r1: "to_tcolgp_array1_pnt ?pnts =
      Inr \<lparr>Lower = 1, Upper = 2,
           Items = [gp_Pnt (Finite 1) (Finite 2) (Finite 3),
                    gp_Pnt (Finite 4) (Finite 5) (Finite 6)]\<rparr>"
    by (simp add: skipped_iff coerced_def to_gp_pnt_def new_gp_Pnt_def and_then_def five)
  have big: "int_to_double (10 ^ 400) = None"
    by (rule int_to_double_overflow) simp
  have ex: "list_ex (\<lambda>p. isl (to_gp_pnt p)) ?bad"
    using big by (simp add: to_gp_pnt_def new_gp_Pnt_def and_then_def)
  then have "\<exists>p \<in> set ?bad. isl (to_gp_pnt p)"
    by (simp only: list_ex_iff)
  then have r2: "isl (to_tcolgp_array1_pnt ?bad)"
    using point_converters_skipping [of _ ?bad] by blast
  have rect: "rectangular ?grid"
    by (simp add: rectangular_def)
  have "?grid \<noteq> [] \<and> rectangular ?grid \<and> list_all (list_all (\<lambda>v. length v = 3)) ?grid"
    using rect by simp
  then have "to_tcolgp_array2_pnt ?grid =
      Inr \<lparr>LowerRow = 1, UpperRow = length ?grid, LowerCol = 1,
           UpperCol = length (hd ?grid), Cells = map (map pnt_of) ?grid\<rparr>"
    using point_converters_skipping [of _ _ ?grid] by blast
  then have r3: "to_tcolgp_array2_pnt ?grid =
      Inr \<lparr>LowerRow = 1, UpperRow = 1, LowerCol = 1, UpperCol = 2,
           Cells = [[gp_Pnt (Finite 1) (Finite 2) (Finite 3),
                     gp_Pnt (Finite 4) (Finite 5) NaN]]\<rparr>"
    by (simp add: pnt_of_def)
  have "\<not> (?ragged \<noteq> [] \<and> rectangular ?ragged \<and>
      list_all (list_all (\<lambda>v. length v = 3)) ?ragged)"
    by (simp add: rectangular_def)
  then have r4: "isl (to_tcolgp_array2_pnt ?ragged)"
    using point_converters_skipping [of _ _ ?ragged] by blast
  from ok r1 ex r2 rect r3 r4 show ?thesis by blast
qed

text \<open>
  The claim as stated fails twice. In a sequence of two elements, the second of three
  entries the first of which is \<open>None\<close>, the second element cannot be coerced and is
  not skipped: the point constructor refuses it and the conversion raises, where the
  claim has an array of length 1. In a grid of one row and two columns whose entries
  have two coordinates, neither entry is skipped: both stay in the row as \<open>None\<close>,
  the array is created with the extents of the grid, and the first \<open>SetValue\<close> is
  given \<open>None\<close>, where the claim has an array of length 0.
\<close>

theorem point_converters_do_not_always_skip:
  "to_tcolgp_array1_pnt
     [PyPnt (gp_Pnt (Finite 1) (Finite 2) (Finite 3)),
      PySeq [PyNone, PyFloat (Finite 1), PyFloat (Finite 2)]] = Inl TypeError \<and>
   rectangular [[[Finite 1, Finite 2], [Finite 3, Finite 4]]] \<and>
   array2_gp_pnts [[[Finite 1, Finite 2], [Finite 3, Finite 4]]] = Inr [[None, None]] \<and>
   to_tcolgp_array2_pnt [[[Finite 1, Finite 2], [Finite 3, Finite 4]]] = Inl TypeError"
  by (simp add: rectangular_def array2_gp_pnts_def to_tcolgp_array2_pnt_def to_gp_pnt_def
      to_tcolgp_array1_pnt_def new_gp_Pnt_def and_then_def SetValue2_def new_Array2_def)

subsection \<open>Scalars\<close>

text \<open>
  C6. For every host scalar sequence containing at least one element not convertible
  to the target numeric type, \<open>to_tcolstd_array1_real\<close> and
  \<open>to_tcolstd_array1_integer\<close> raise an error and return no array: the error is the
  one raised by the comprehension that converts the elements, which runs to its end
  before the kernel array is created.
\<close>

theorem scalar_marshalling_raises:
  "((\<exists>x \<in> set array. isl (py_float x)) \<longrightarrow>
      (\<exists>err. comprehension py_float array = Inl err \<and>
             to_tcolstd_array1_real array = Inl err)) \<and>
   ((\<exists>x \<in> set array. isl (py_int x)) \<longrightarrow>
      (\<exists>err. comprehension py_int array = Inl err \<and>
             to_tcolstd_array1_integer array = Inl err))"
proof -
  have f: "\<exists>err. comprehension py_float array = Inl err"
    if "\<exists>x \<in> set array. isl (py_float x)"
    using that comprehension_fails [of _ array py_float]
    by (cases "comprehension py_float array") auto
  have i: "\<exists>err. comprehension py_int array = Inl err"
    if "\<exists>x \<in> set array. isl (py_int x)"
    using that comprehension_fails [of _ array py_int]
    by (cases "comprehension py_int array") auto
  have r: "\<exists>err. comprehension py_float array = Inl err \<and>
        to_tcolstd_array1_real array = Inl err"
    if "\<exists>x \<in> set array. isl (py_float x)"
  proof -
    from f [OF that] obtain err where "comprehension py_float array = Inl err" ..
    then show ?thesis
      by (simp add: to_tcolstd_array1_real_def and_then_def)
  qed
  have n: "\<exists>err. comprehension py_int array = Inl err \<and>
        to_tcolstd_array1_integer array = Inl err"
    if "\<exists>x \<in> set array. isl (py_int x)"
  proof -
    from i [OF that] obtain err where "comprehension py_int array = Inl err" ..
    then show ?thesis
      by (simp add: to_tcolstd_array1_integer_def and_then_def)
  qed
  from r n show ?thesis by blast
qed

theorem scalar_marshalling_raises_witness:
  "list_ex (\<lambda>x. isl (py_float x)) [PyFloat (Finite 1), PyNone, PyInt 3] \<and>
   list_ex (\<lambda>x. isl (py_int x)) [PyFloat (Finite 1), PyNone, PyInt 3] \<and>
   to_tcolstd_array1_real [PyFloat (Finite 1), PyNone, PyInt 3] = Inl TypeError \<and>
   to_tcolstd_array1_integer [PyFloat (Finite 1), PyNone, PyInt 3] = Inl TypeError"
proof -
  let ?a = "[PyFloat (Finite 1), PyNone, PyInt 3]"
  have f: "\<exists>x \<in> set ?a. isl (py_float x)" and i: "\<exists>x \<in> set ?a. isl (py_int x)"
    by simp_all
  from scalar_marshalling_raises [of ?a] f obtain err where
    "comprehension py_float ?a = Inl err" "to_tcolstd_array1_real ?a = Inl err"
    by blast
  then have r: "to_tcolstd_array1_real ?a = Inl TypeError"
    by (simp add: and_then_def)
  from scalar_marshalling_raises [of ?a] i obtain err' where
    "comprehension py_int ?a = Inl err'" "to_tcolstd_array1_integer ?a = Inl err'"
    by blast
  then have "to_tcolstd_array1_integer ?a = Inl TypeError"
    by (simp add: and_then_def)
  with r show ?thesis by simp
qed

subsection \<open>Round trip of a point sequence\<close>

text \<open>
  C7 (amended). For every host point sequence of length N in which every element is
  coercible to a 3-D point, converting it to the kernel array and back succeeds and
  yields N rows of three coordinates, those of the elements in their order. Every
  coordinate other than NaN comes back equal to the original within floating-point
  tolerance: a float comes back as the same double, an integer as the nearest double,
  off by at most the fraction \<open>1 / 2 ^ 53\<close> of its value. A NaN coordinate comes back
  as NaN.
\<close>

theorem point_array_round_trip:
  assumes "\<forall>p \<in> set pnts. coercible p"
  shows "and_then (to_tcolgp_array1_pnt pnts) to_np_from_tcolgp_array1_pnt =
           Inr (map coords pnts) \<and>
         length (map coords pnts) = length pnts \<and>
         list_all (\<lambda>p. length (coords p) = 3 \<and>
                        list_all2 comes_back (host_coords p) (coords p)) pnts"
proof -
  have c: "\<And>p. p \<in> set pnts \<Longrightarrow> coercible p"
    using assms by blast
  have "to_tcolgp_array1_pnt pnts =
      Inr \<lparr>Lower = 1, Upper = length (coerced pnts), Items = coerced pnts\<rparr>"
    using to_tcolgp_array1_pnt_result [of pnts] c coercible_not_raised by blast
  then have "and_then (to_tcolgp_array1_pnt pnts) to_np_from_tcolgp_array1_pnt =
      Inr (map (\<lambda>g. [X g, Y g, Z g]) (coerced pnts))"
    by (simp only: and_then_def sum.case to_np_roundtrip_array)
  moreover have "list_all (\<lambda>p. length (coords p) = 3 \<and>
      list_all2 comes_back (host_coords p) (coords p)) pnts"
    using c coords_length coercible_comes_back by (simp add: list_all_iff)
  ultimately show ?thesis
    using coerced_coords [OF c] by simp
qed

theorem point_array_round_trip_witness:
  "list_all coercible
     [PyPnt (gp_Pnt (Finite 1) (Finite 2) (Finite 3)),
      PySeq [PyFloat (Finite 4), PyInt 9007199254740993, PyFloat (Finite 6.5)]] \<and>
   and_then
     (to_tcolgp_array1_pnt
        [PyPnt (gp_Pnt (Finite 1) (Finite 2) (Finite 3)),
         PySeq [PyFloat (Finite 4), PyInt 9007199254740993, PyFloat (Finite 6.5)]])
     to_np_from_tcolgp_array1_pnt =
   Inr [[Finite 1, Finite 2, Finite 3], [Finite 4, Finite 9007199254740992, Finite 6.5]] \<and>
   comes_back (PyInt 9007199254740993) (Finite 9007199254740992)"
proof -
  let ?pnts = "[PyPnt (gp_Pnt (Finite 1) (Finite 2) (Finite 3)),
      PySeq [PyFloat (Finite 4), PyInt 9007199254740993, PyFloat (Finite 6.5)]]"
  have ok: "list_all coercible ?pnts"
    by (simp add: coercible_def to_gp_pnt_def new_gp_Pnt_def and_then_def
        int_to_double_rounds)
  then have all: "\<forall>p \<in> set ?pnts. coercible p"
    by (simp only: list_all_iff)
  note rt = point_array_round_trip [OF all]
  from rt have "and_then (to_tcolgp_array1_pnt ?pnts) to_np_from_tcolgp_array1_pnt =
      Inr (map coords ?pnts)"
    by blast
  then have r: "and_then (to_tcolgp_array1_pnt ?pnts) to_np_from_tcolgp_array1_pnt =
      Inr [[Finite 1, Finite 2, Finite 3], [Finite 4, Finite 9007199254740992, Finite 6.5]]"
    by (simp add: int_to_double_rounds)
  from rt have "list_all (\<lambda>p. length (coords p) = 3 \<and>
      list_all2 comes_back (host_coords p) (coords p)) ?pnts"
    by blast
  then have "comes_back (PyInt 9007199254740993) (Finite 9007199254740992)"
    by (simp add: int_to_double_rounds)
  with ok r show ?thesis by blast
qed

text \<open>
  The claim as stated fails for a coordinate that is NaN: the element is coercible,
  the round trip returns NaN in its place, and NaN is equal to nothing within any
  tolerance.
\<close>

theorem point_array_round_trip_nan:
  "coercible (PySeq [PyFloat NaN, PyFloat (Finite 0), PyFloat (Finite 0)]) \<and>
   and_then
     (to_tcolgp_array1_pnt [PySeq [PyFloat NaN, PyFloat (Finite 0), PyFloat (Finite 0)]])
     to_np_from_tcolgp_array1_pnt =
   Inr [[NaN, Finite 0, Finite 0]] \<and>
   \<not> within_tolerance (PyFloat NaN) NaN"
proof -
  let ?p = "PySeq [PyFloat NaN, PyFloat (Finite 0), PyFloat (Finite 0)]"
  have c: "coercible ?p"
    by (simp add: coercible_def to_gp_pnt_def new_gp_Pnt_def and_then_def)
  have "to_tcolgp_array1_pnt [?p] =
      Inr \<lparr>Lower = 1, Upper = length [gp_Pnt NaN (Finite 0) (Finite 0)],
           Items = [gp_Pnt NaN (Finite 0) (Finite 0)]\<rparr>"
    using to_tcolgp_array1_pnt_result [of "[?p]"]
    by (simp add: coerced_def to_gp_pnt_def new_gp_Pnt_def and_then_def)
  then have "and_then (to_tcolgp_array1_pnt [?p]) to_np_from_tcolgp_array1_pnt =
      Inr (map (\<lambda>g. [X g, Y g, Z g]) [gp_Pnt NaN (Finite 0) (Finite 0)])"
    by (simp only: and_then_def sum.case to_np_roundtrip_array)
  then have "and_then (to_tcolgp_array1_pnt [?p]) to_np_from_tcolgp_array1_pnt =
      Inr [[NaN, Finite 0, Finite 0]]"
    by simp
  with c show ?thesis by (simp add: within_tolerance_def)
qed

end
